theory Spec2Isabelle
  imports Main
begin

section \<open>Tokenizer (\<^verbatim>\<open>parseCommand\<close>, main.cpp lines 20-28)\<close>

text \<open>
  \<^verbatim>\<open>iss >> token\<close> on a \<^verbatim>\<open>std::istringstream\<close> skips the characters for which
  \<^verbatim>\<open>isspace\<close> holds in the classic locale (space, \<^verbatim>\<open>\t \n \v \f \r\<close>), then
  moves characters into \<^verbatim>\<open>token\<close> up to the next such character or the end
  of the stream. It fails, and the \<^verbatim>\<open>while\<close> ends, when nothing is left after the
  skipping. A stream is modelled by the characters not yet consumed.
\<close>

definition isspace :: "char \<Rightarrow> bool" where
  "isspace c = (c \<in> set [CHR 0x20, CHR 0x09, CHR 0x0A, CHR 0x0B, CHR 0x0C, CHR 0x0D])"

definition read_token :: "string \<Rightarrow> (string \<times> string) option" where
  "read_token iss =
     (let rest = dropWhile isspace iss in
      if rest = [] then None
      else Some (takeWhile (\<lambda>c. \<not> isspace c) rest, dropWhile (\<lambda>c. \<not> isspace c) rest))"

lemma read_token_shorter: "read_token iss = Some (token, iss') \<Longrightarrow> length iss' < length iss"
proof -
  assume a: "read_token iss = Some (token, iss')"
  define rest where "rest = dropWhile isspace iss"
  from a have ne: "rest \<noteq> []" and r: "iss' = dropWhile (\<lambda>c. \<not> isspace c) rest"
    by (auto simp: read_token_def rest_def Let_def split: if_splits)
  from ne have "\<not> isspace (hd rest)"
    unfolding rest_def by (rule hd_dropWhile)
  with ne have "length iss' < length rest"
    unfolding r by (cases rest) (auto simp: less_Suc_eq_le length_dropWhile_le)
  moreover have "length rest \<le> length iss"
    unfolding rest_def by (rule length_dropWhile_le)
  ultimately show ?thesis by simp
qed

function parseCommand_loop :: "string \<Rightarrow> string list \<Rightarrow> string list" where
  "parseCommand_loop iss tokens =
     (case read_token iss of
        None \<Rightarrow> tokens
      | Some (token, iss') \<Rightarrow> parseCommand_loop iss' (tokens @ [token]))"
  by pat_completeness auto
termination
  by (relation "measure (\<lambda>(iss, tokens). length iss)") (auto dest: read_token_shorter)

definition parseCommand :: "string \<Rightarrow> string list" where
  "parseCommand input = parseCommand_loop input []"

text \<open>
  The words of the specification: the input is a run of whitespace of some length
  \<open>n\<close>, then a token (non-empty, free of whitespace, and ended by whitespace or by
  the end of the input), then the rest, split the same way; with no token left,
  only whitespace remains.
\<close>

fun tokenization :: "string \<Rightarrow> string list \<Rightarrow> bool" where
  "tokenization s [] = list_all isspace s"
| "tokenization s (t # ts) =
     (t \<noteq> [] \<and> list_all (\<lambda>c. \<not> isspace c) t \<and>
      list_ex (\<lambda>n. list_all isspace (take n s) \<and>
                   take (length t) (drop n s) = t \<and>
                   (drop (n + length t) s = [] \<or> isspace (hd (drop (n + length t) s))) \<and>
                   tokenization (drop (n + length t) s) ts)
              [0..<Suc (length s)])"

section \<open>The operating system, as the shell meets it\<close>

text \<open>
  The model follows the parent process, the shell. Its state is the list of
  descriptors it holds open, the children it has created and not yet waited for,
  every child created so far with what that child runs, and the log of what the
  parent has done, oldest first. Whether a call of \<^verbatim>\<open>open\<close>, \<^verbatim>\<open>pipe\<close> or
  \<^verbatim>\<open>fork\<close> succeeds is not decided by the program: the record \<open>os\<close> answers,
  from the number of earlier calls of that kind (and, for \<^verbatim>\<open>open\<close>, the path and
  the flags), so that any course of successes and failures can be supplied. The
  calls themselves are not code of the program: they follow what POSIX says of
  them, as far as the properties below need it.
\<close>

datatype oflag = O_RDONLY | O_WRONLY_CREAT_TRUNC

datatype event =
    Stdout string
  | Stderr string
  | Perror string
  | Open string oflag int
  | Close int
  | Pipe int int
  | PipeFailed
  | Fork int
  | Wait int
  | Waitpid int
  | Chdir string
  | Dup2 int int
  | Execvp "string option" "string option list"
  | Exit int
  | Killed_SIGSEGV

record child =
  c_pid :: int
  c_trace :: "event list"

record os =
  open_ok :: "nat \<Rightarrow> string \<Rightarrow> oflag \<Rightarrow> bool"
  pipe_ok :: "nat \<Rightarrow> bool"
  fork_ok :: "nat \<Rightarrow> bool"
  exec_ok :: "string \<Rightarrow> bool"
  chdir_ok :: "string \<Rightarrow> bool"
  wait_pick :: "nat \<Rightarrow> nat"

record shell =
  fds :: "int list"
  unreaped :: "int list"
  children :: "child list"
  log :: "event list"
  n_open :: nat
  n_pipe :: nat
  n_fork :: nat
  n_wait :: nat

definition emit :: "event \<Rightarrow> shell \<Rightarrow> shell" where
  "emit e st = st\<lparr>log := log st @ [e]\<rparr>"

text \<open>A new descriptor is the lowest number not open in the process.\<close>

fun first_free :: "nat \<Rightarrow> nat \<Rightarrow> int list \<Rightarrow> int" where
  "first_free 0 n used = int n"
| "first_free (Suc k) n used =
     (if int n \<in> set used then first_free k (Suc n) used else int n)"

definition lowest_free :: "int list \<Rightarrow> int" where
  "lowest_free used = first_free (length used) 0 used"

definition sys_open :: "os \<Rightarrow> string \<Rightarrow> oflag \<Rightarrow> shell \<Rightarrow> int \<times> shell" where
  "sys_open os path flag st =
     (if open_ok os (n_open st) path flag
      then (let fd = lowest_free (fds st)
            in (fd, emit (Open path flag fd)
                      (st\<lparr>fds := fds st @ [fd], n_open := Suc (n_open st)\<rparr>)))
      else (- 1, emit (Open path flag (- 1)) (st\<lparr>n_open := Suc (n_open st)\<rparr>)))"

definition sys_close :: "int \<Rightarrow> shell \<Rightarrow> shell" where
  "sys_close fd st = emit (Close fd) (st\<lparr>fds := removeAll fd (fds st)\<rparr>)"

definition sys_pipe :: "os \<Rightarrow> shell \<Rightarrow> int \<times> int \<times> int \<times> shell" where
  "sys_pipe os st =
     (if pipe_ok os (n_pipe st)
      then (let r = lowest_free (fds st); w = lowest_free (fds st @ [r])
            in (0, r, w, emit (Pipe r w)
                           (st\<lparr>fds := fds st @ [r, w], n_pipe := Suc (n_pipe st)\<rparr>)))
      else (- 1, - 1, - 1, emit PipeFailed (st\<lparr>n_pipe := Suc (n_pipe st)\<rparr>)))"

text \<open>
  \<^verbatim>\<open>fork\<close>, seen from the parent: on success a child exists that runs the branch
  \<^verbatim>\<open>pid == 0\<close> of the caller, given here as the trace of that branch, and the
  parent gets the child's positive pid; on failure the parent gets \<open>-1\<close> and no
  child exists.
\<close>

definition sys_fork :: "os \<Rightarrow> event list \<Rightarrow> shell \<Rightarrow> int \<times> shell" where
  "sys_fork os branch st =
     (if fork_ok os (n_fork st)
      then (let pid = 1 + int (length (children st))
            in (pid, emit (Fork pid)
                       (st\<lparr>unreaped := unreaped st @ [pid],
                           children := children st @ [\<lparr>c_pid = pid, c_trace = branch\<rparr>],
                           n_fork := Suc (n_fork st)\<rparr>)))
      else (- 1, emit (Fork (- 1)) (st\<lparr>n_fork := Suc (n_fork st)\<rparr>)))"

text \<open>
  \<^verbatim>\<open>wait(nullptr)\<close> reaps one of the children not yet waited for, whichever ends
  first (the choice is the operating system's), and fails at once when there is none.
  \<^verbatim>\<open>waitpid(pid, nullptr, 0)\<close> reaps that child.
\<close>

definition sys_wait :: "os \<Rightarrow> shell \<Rightarrow> int \<times> shell" where
  "sys_wait os st =
     (if unreaped st = []
      then (- 1, emit (Wait (- 1)) (st\<lparr>n_wait := Suc (n_wait st)\<rparr>))
      else (let pid = unreaped st ! (wait_pick os (n_wait st) mod length (unreaped st))
            in (pid, emit (Wait pid)
                       (st\<lparr>unreaped := removeAll pid (unreaped st), n_wait := Suc (n_wait st)\<rparr>))))"

definition sys_waitpid :: "int \<Rightarrow> shell \<Rightarrow> shell" where
  "sys_waitpid pid st = emit (Waitpid pid) (st\<lparr>unreaped := removeAll pid (unreaped st)\<rparr>)"

text \<open>
  \<^verbatim>\<open>c_str()\<close> hands a token to the operating system as a C string, which ends at
  the first NUL byte: what follows a NUL byte inside a token is not seen. The
  argument vectors hold such C strings. (\<^verbatim>\<open>open\<close> and \<^verbatim>\<open>chdir\<close> get their path
  the same way; \<open>open_ok\<close> and \<open>chdir_ok\<close> are asked with the whole token, which
  determines the path.)
\<close>

definition c_str :: "string \<Rightarrow> string" where
  "c_str s = takeWhile (\<lambda>c. c \<noteq> CHR 0x00) s"

text \<open>
  \<^verbatim>\<open>execvp(argv[0], argv.data())\<close> in a child, with the two statements after it:
  they run only when the image was not replaced. Every vector built by the program
  ends with the null pointer, so \<^verbatim>\<open>argv[0]\<close> is within it; it is the null pointer
  itself when no token came before. \<^verbatim>\<open>execvp\<close> reads the name it is given, so with
  the null pointer as name the child is killed there (\<^verbatim>\<open>SIGSEGV\<close>), before any
  report and before \<^verbatim>\<open>exit\<close>.
\<close>

definition exec_or_die :: "os \<Rightarrow> string option list \<Rightarrow> event list" where
  "exec_or_die os argv =
     (case hd argv of
        None \<Rightarrow> [Execvp None argv, Killed_SIGSEGV]
      | Some file \<Rightarrow>
          Execvp (Some file) argv #
          (if exec_ok os file then [] else [Stderr ''Error: Comando no encontrado.'', Exit 1]))"

definition STDIN_FILENO :: int where
  "STDIN_FILENO = 0"

definition STDOUT_FILENO :: int where
  "STDOUT_FILENO = 1"

section \<open>Redirection resolver (\<^verbatim>\<open>isRedirection\<close>, lines 37-62)\<close>

definition open_error :: "string \<Rightarrow> event" where
  "open_error path = Stderr (''Error: No se pudo abrir el archivo '' @ path)"

function isRedirection_loop ::
  "os \<Rightarrow> string list \<Rightarrow> nat \<Rightarrow> int \<Rightarrow> int \<Rightarrow> shell \<Rightarrow> bool \<times> int \<times> int \<times> shell" where
  "isRedirection_loop os args i inFile outFile st =
     (if i < length args then
        (if args ! i = ''<'' then
           (if i + 1 < length args then
              (case sys_open os (args ! (i + 1)) O_RDONLY st of
                 (fd, st') \<Rightarrow>
                   if fd < 0 then (False, fd, outFile, emit (open_error (args ! (i + 1))) st')
                   else isRedirection_loop os args (i + 1) fd outFile st')
            else isRedirection_loop os args (i + 1) inFile outFile st)
         else if args ! i = ''>'' then
           (if i + 1 < length args then
              (case sys_open os (args ! (i + 1)) O_WRONLY_CREAT_TRUNC st of
                 (fd, st') \<Rightarrow>
                   if fd < 0 then (False, inFile, fd, emit (open_error (args ! (i + 1))) st')
                   else isRedirection_loop os args (i + 1) inFile fd st')
            else isRedirection_loop os args (i + 1) inFile outFile st)
         else isRedirection_loop os args (i + 1) inFile outFile st)
      else (True, inFile, outFile, st))"
  by pat_completeness auto
termination
  by (relation "measure (\<lambda>(os, args, i, inFile, outFile, st). length args - i)") auto

definition isRedirection :: "os \<Rightarrow> string list \<Rightarrow> shell \<Rightarrow> bool \<times> int \<times> int \<times> shell" where
  "isRedirection os args st = isRedirection_loop os args 0 (- 1) (- 1) st"

section \<open>Single-stage launcher (\<^verbatim>\<open>executeCommand\<close>, lines 68-106)\<close>

text \<open>The loop of lines 91-94, which stops at the first redirection operator.\<close>

fun argv_loop :: "string list \<Rightarrow> string option list \<Rightarrow> string option list" where
  "argv_loop [] argv = argv"
| "argv_loop (arg # rest) argv =
     (if arg = ''<'' \<or> arg = ''>'' then argv else argv_loop rest (argv @ [Some (c_str arg)]))"

definition executeCommand_argv :: "string list \<Rightarrow> string option list" where
  "executeCommand_argv args = argv_loop args [] @ [None]"

text \<open>The branch \<^verbatim>\<open>pid == 0\<close>, lines 80-100.\<close>

definition executeCommand_child :: "os \<Rightarrow> string list \<Rightarrow> int \<Rightarrow> int \<Rightarrow> event list" where
  "executeCommand_child os args inFile outFile =
     (if inFile \<noteq> - 1 then [Dup2 inFile STDIN_FILENO, Close inFile] else []) @
     (if outFile \<noteq> - 1 then [Dup2 outFile STDOUT_FILENO, Close outFile] else []) @
     exec_or_die os (executeCommand_argv args)"

text \<open>Lines 75-105: what follows a successful resolution.\<close>

definition launch :: "os \<Rightarrow> string list \<Rightarrow> int \<Rightarrow> int \<Rightarrow> shell \<Rightarrow> shell" where
  "launch os args inFile outFile st =
     (case sys_fork os (executeCommand_child os args inFile outFile) st of
        (pid, st1) \<Rightarrow>
          if pid < 0 then emit (Stderr ''Error: Fallo en fork.'') st1
          else
            (let st2 = (if inFile \<noteq> - 1 then sys_close inFile st1 else st1);
                 st3 = (if outFile \<noteq> - 1 then sys_close outFile st2 else st2)
             in snd (sys_wait os st3)))"

definition executeCommand :: "os \<Rightarrow> string list \<Rightarrow> shell \<Rightarrow> shell" where
  "executeCommand os args st =
     (case isRedirection os args st of
        (ok, inFile, outFile, st1) \<Rightarrow>
          if \<not> ok then st1 else launch os args inFile outFile st1)"

section \<open>Two-stage launcher (\<^verbatim>\<open>executePipedCommands\<close>, lines 112-186)\<close>

text \<open>The loop of lines 117-128.\<close>

fun split_loop ::
  "string list \<Rightarrow> bool \<Rightarrow> string list \<Rightarrow> string list \<Rightarrow> string list \<times> string list" where
  "split_loop [] foundPipe cmd1 cmd2 = (cmd1, cmd2)"
| "split_loop (arg # rest) foundPipe cmd1 cmd2 =
     (if arg = ''|'' then split_loop rest True cmd1 cmd2
      else if foundPipe then split_loop rest foundPipe cmd1 (cmd2 @ [arg])
      else split_loop rest foundPipe (cmd1 @ [arg]) cmd2)"

definition split_commands :: "string list \<Rightarrow> string list \<times> string list" where
  "split_commands args = split_loop args False [] []"

definition pipe_error :: event where
  "pipe_error = Stderr (''Error: No se pudo crear la tuber'' @ [CHR 0xC3, CHR 0xAD] @ ''a.'')"

text \<open>The branches \<^verbatim>\<open>pid1 == 0\<close> (lines 143-156) and \<^verbatim>\<open>pid2 == 0\<close> (lines 166-179).\<close>

definition piped_child1 :: "os \<Rightarrow> string list \<Rightarrow> int \<Rightarrow> int \<Rightarrow> event list" where
  "piped_child1 os cmd1 pipefd0 pipefd1 =
     [Dup2 pipefd1 STDOUT_FILENO, Close pipefd0, Close pipefd1] @
     exec_or_die os (map (\<lambda>arg. Some (c_str arg)) cmd1 @ [None])"

definition piped_child2 :: "os \<Rightarrow> string list \<Rightarrow> int \<Rightarrow> int \<Rightarrow> event list" where
  "piped_child2 os cmd2 pipefd0 pipefd1 =
     [Dup2 pipefd0 STDIN_FILENO, Close pipefd1, Close pipefd0] @
     exec_or_die os (map (\<lambda>arg. Some (c_str arg)) cmd2 @ [None])"

definition executePipedCommands :: "os \<Rightarrow> string list \<Rightarrow> shell \<Rightarrow> shell" where
  "executePipedCommands os args st =
     (case split_commands args of
        (cmd1, cmd2) \<Rightarrow>
          (case sys_pipe os st of
             (rc, pipefd0, pipefd1, st1) \<Rightarrow>
               if rc = - 1 then emit pipe_error st1
               else
                 (case sys_fork os (piped_child1 os cmd1 pipefd0 pipefd1) st1 of
                    (pid1, st2) \<Rightarrow>
                      if pid1 < 0 then emit (Stderr ''Error: Fallo en fork.'') st2
                      else
                        (case sys_fork os (piped_child2 os cmd2 pipefd0 pipefd1) st2 of
                           (pid2, st3) \<Rightarrow>
                             if pid2 < 0 then emit (Stderr ''Error: Fallo en fork.'') st3
                             else
                               sys_waitpid pid2
                                 (sys_waitpid pid1
                                    (sys_close pipefd1 (sys_close pipefd0 st3)))))))"

section \<open>Dispatcher (\<^verbatim>\<open>hasPipe\<close>, \<^verbatim>\<open>changeDirectory\<close>, \<^verbatim>\<open>main\<close>, lines 193-241)\<close>

fun hasPipe :: "string list \<Rightarrow> bool" where
  "hasPipe [] = False"
| "hasPipe (arg # rest) = (if arg = ''|'' then True else hasPipe rest)"

definition changeDirectory :: "os \<Rightarrow> string list \<Rightarrow> shell \<Rightarrow> shell" where
  "changeDirectory os args st =
     (if length args < 2 then emit (Stderr ''Error: faltan argumentos para el comando cd'') st
      else if chdir_ok os (args ! 1) then emit (Chdir (args ! 1)) st
      else emit (Perror ''Error al cambiar de directorio'') st)"

text \<open>
  One turn of the \<^verbatim>\<open>while (true)\<close> of \<^verbatim>\<open>main\<close> on what \<^verbatim>\<open>input\<close> holds after
  \<^verbatim>\<open>getline\<close>. \<^verbatim>\<open>args[0]\<close> on an empty vector reads out of bounds, which C++ leaves
  undefined: the model stops there with a fault.
\<close>

datatype control = Continue | Break

datatype fault = OutOfBounds

definition main_turn :: "os \<Rightarrow> string \<Rightarrow> shell \<Rightarrow> fault + control \<times> shell" where
  "main_turn os input st0 =
     (let st = emit (Stdout ''mishell:$ '') st0 in
      if input = [] then Inr (Continue, st)
      else
        (let args = parseCommand input in
         if \<not> 0 < length args then Inl OutOfBounds
         else if args ! 0 = ''exit'' then Inr (Break, st)
         else if args ! 0 = ''cd'' then Inr (Continue, changeDirectory os args st)
         else if hasPipe args then Inr (Continue, executePipedCommands os args st)
         else Inr (Continue, executeCommand os args st)))"

text \<open>
  \<^verbatim>\<open>std::getline(std::cin, input)\<close>. The stream is the bytes not yet read and
  whether it is still good. On a good stream \<^verbatim>\<open>input\<close> is emptied and filled up to
  the next newline, which is taken off the stream and not stored; when the bytes end
  before a newline the stream stops being good. On a stream that is not good the call
  does nothing: \<^verbatim>\<open>input\<close>, declared outside the loop, keeps what it held.
\<close>

record cin =
  pending :: string
  good :: bool

definition getline :: "cin \<Rightarrow> string \<Rightarrow> cin \<times> string" where
  "getline stream input =
     (if \<not> good stream then (stream, input)
      else if CHR 0x0A \<in> set (pending stream)
      then (stream\<lparr>pending := tl (dropWhile (\<lambda>c. c \<noteq> CHR 0x0A) (pending stream))\<rparr>,
            takeWhile (\<lambda>c. c \<noteq> CHR 0x0A) (pending stream))
      else (stream\<lparr>pending := [], good := False\<rparr>, pending stream))"

text \<open>
  The \<^verbatim>\<open>while (true)\<close> of \<^verbatim>\<open>main\<close>. It never tests the stream, so it is left only
  by \<^verbatim>\<open>break\<close> or by a fault; at the end of the input it goes on with what \<^verbatim>\<open>input\<close>
  holds. The number of turns is therefore bounded from outside: after that many
  turns the loop is still running, in the state given.
\<close>

datatype outcome = Returned shell | Faulted fault | Running shell

fun main_loop :: "os \<Rightarrow> nat \<Rightarrow> cin \<Rightarrow> string \<Rightarrow> shell \<Rightarrow> outcome" where
  "main_loop os 0 stream input st = Running st"
| "main_loop os (Suc turns) stream input st =
     (case getline stream input of
        (stream', input') \<Rightarrow>
          (case main_turn os input' st of
             Inl f \<Rightarrow> Faulted f
           | Inr (Break, st') \<Rightarrow> Returned st'
           | Inr (Continue, st') \<Rightarrow> main_loop os turns stream' input' st'))"

definition main :: "os \<Rightarrow> nat \<Rightarrow> string \<Rightarrow> shell \<Rightarrow> outcome" where
  "main os turns bytes st = main_loop os turns \<lparr>pending = bytes, good = True\<rparr> [] st"

fun shell_of :: "outcome \<Rightarrow> shell option" where
  "shell_of (Returned st) = Some st"
| "shell_of (Running st) = Some st"
| "shell_of (Faulted f) = None"

text \<open>
  Concrete surroundings for the examples: an operating system where every call
  succeeds, and a shell that has only its three standard descriptors open.
\<close>

definition os_ok :: os where
  "os_ok = \<lparr>open_ok = (\<lambda>k path flag. True), pipe_ok = (\<lambda>k. True), fork_ok = (\<lambda>k. True),
            exec_ok = (\<lambda>prog. True), chdir_ok = (\<lambda>path. True), wait_pick = (\<lambda>k. 0)\<rparr>"

definition shell0 :: shell where
  "shell0 = \<lparr>fds = [0, 1, 2], unreaped = [], children = [], log = [],
             n_open = 0, n_pipe = 0, n_fork = 0, n_wait = 0\<rparr>"

section \<open>The specification's words\<close>

text \<open>
  Stage 1 and stage 2 as the specification describes them: the tokens strictly
  before, and strictly after, the first \<^verbatim>\<open>|\<close>.
\<close>

definition tokens_before_first_pipe :: "string list \<Rightarrow> string list" where
  "tokens_before_first_pipe args = takeWhile (\<lambda>arg. arg \<noteq> ''|'') args"

definition tokens_after_first_pipe :: "string list \<Rightarrow> string list" where
  "tokens_after_first_pipe args = tl (dropWhile (\<lambda>arg. arg \<noteq> ''|'') args)"

definition without_pipes :: "string list \<Rightarrow> string list" where
  "without_pipes args = filter (\<lambda>arg. arg \<noteq> ''|'') args"

text \<open>The log entries of process creation and reaping.\<close>

fun is_process_event :: "event \<Rightarrow> bool" where
  "is_process_event (Fork pid) = True"
| "is_process_event (Wait pid) = True"
| "is_process_event (Waitpid pid) = True"
| "is_process_event e = False"

text \<open>
  The argument vector as the specification describes it: every token up to, and not
  including, the first redirection operator.
\<close>

definition args_before_redirection :: "string list \<Rightarrow> string list" where
  "args_before_redirection args = takeWhile (\<lambda>arg. arg \<noteq> ''<'' \<and> arg \<noteq> ''>'') args"

text \<open>The calls of \<^verbatim>\<open>execvp\<close> in a child's trace, with program name and vector.\<close>

fun exec_calls :: "event list \<Rightarrow> (string option \<times> string option list) list" where
  "exec_calls [] = []"
| "exec_calls (Execvp prog argv # es) = (prog, argv) # exec_calls es"
| "exec_calls (e # es) = exec_calls es"

text \<open>
  What the resolver leaves alone: it creates and reaps no process, and what it adds
  to the log is no \<^verbatim>\<open>fork\<close> and no wait.
\<close>

definition resolver_frame :: "shell \<Rightarrow> shell \<Rightarrow> bool" where
  "resolver_frame st st' \<longleftrightarrow>
     children st' = children st \<and> unreaped st' = unreaped st \<and> n_fork st' = n_fork st \<and>
     n_pipe st' = n_pipe st \<and> n_wait st' = n_wait st \<and>
     take (length (log st)) (log st') = log st \<and>
     list_all (\<lambda>e. \<not> is_process_event e) (drop (length (log st)) (log st'))"

text \<open>
  Two more surroundings for the examples: one where \<^verbatim>\<open>missing.txt\<close> cannot be
  opened, and one where the second \<^verbatim>\<open>fork\<close> fails.
\<close>

definition os_missing :: os where
  "os_missing = os_ok\<lparr>open_ok := (\<lambda>k path flag. path \<noteq> ''missing.txt'')\<rparr>"

definition os_second_fork_fails :: os where
  "os_second_fork_fails = os_ok\<lparr>fork_ok := (\<lambda>k. k \<noteq> 1)\<rparr>"

section \<open>Properties of the tokenizer\<close>

lemma parseCommand_loop_acc: "parseCommand_loop iss tokens = tokens @ parseCommand_loop iss []"
proof (induction iss arbitrary: tokens rule: length_induct)
  case (1 iss)
  show ?case
  proof (cases "read_token iss")
    case None
    then show ?thesis by simp
  next
    case (Some p)
    obtain token iss' where p: "p = (token, iss')" by (cases p)
    with Some have shorter: "length iss' < length iss"
      by (simp add: read_token_shorter)
    have "parseCommand_loop iss tokens = parseCommand_loop iss' (tokens @ [token])"
      using Some p by simp
    also have "\<dots> = (tokens @ [token]) @ parseCommand_loop iss' []"
      using 1 shorter by blast
    also have "\<dots> = tokens @ parseCommand_loop iss' [token]"
      using 1 shorter by (metis append.assoc)
    finally show ?thesis using Some p by simp
  qed
qed

lemma parseCommand_unfold:
  "parseCommand iss =
     (case read_token iss of None \<Rightarrow> [] | Some (token, iss') \<Rightarrow> token # parseCommand iss')"
proof (cases "read_token iss")
  case None
  then show ?thesis by (simp add: parseCommand_def)
next
  case (Some p)
  obtain token iss' where p: "p = (token, iss')" by (cases p)
  have "parseCommand iss = parseCommand_loop iss' [token]"
    using Some p by (simp add: parseCommand_def)
  also have "\<dots> = token # parseCommand iss'"
    using parseCommand_loop_acc[of iss' "[token]"] by (simp add: parseCommand_def)
  finally show ?thesis using Some p by simp
qed

lemma read_token_whitespace: "list_all isspace w \<Longrightarrow> read_token w = None"
  by (simp add: read_token_def list_all_iff)

lemma read_token_token:
  assumes "list_all isspace w" "t \<noteq> []" "list_all (\<lambda>c. \<not> isspace c) t" "r = [] \<or> isspace (hd r)"
  shows "read_token (w @ t @ r) = Some (t, r)"
proof -
  from assms(2,3) have hd_t: "\<not> isspace (hd t)"
    by (cases t) auto
  have skip: "dropWhile isspace (w @ t @ r) = t @ r"
    using assms(1,2) hd_t by (cases t) (auto simp: list_all_iff dropWhile_append)
  have tk: "takeWhile (\<lambda>c. \<not> isspace c) (t @ r) = t"
    using assms(3,4) by (cases r) (auto simp: list_all_iff takeWhile_append)
  have dr: "dropWhile (\<lambda>c. \<not> isspace c) (t @ r) = r"
    using assms(3,4) by (cases r) (auto simp: list_all_iff dropWhile_append)
  show ?thesis
    using assms(2) by (simp add: read_token_def skip tk dr)
qed

lemma tokenization_token:
  assumes "list_all isspace w" "t \<noteq> []" "list_all (\<lambda>c. \<not> isspace c) t"
    "r = [] \<or> isspace (hd r)" "tokenization r ts"
  shows "tokenization (w @ t @ r) (t # ts)"
proof -
  have "length w \<in> set [0..<Suc (length (w @ t @ r))]"
    by simp
  moreover have "list_all isspace (take (length w) (w @ t @ r))"
    "take (length t) (drop (length w) (w @ t @ r)) = t"
    "drop (length w + length t) (w @ t @ r) = r"
    using assms(1) by simp_all
  ultimately show ?thesis
    using assms(2-5) unfolding tokenization.simps list_ex_iff by metis
qed

lemma tokenization_tokenE:
  assumes "tokenization s (t # ts)"
  obtains w r where "s = w @ t @ r" "list_all isspace w" "t \<noteq> []"
    "list_all (\<lambda>c. \<not> isspace c) t" "r = [] \<or> isspace (hd r)" "tokenization r ts"
proof -
  from assms obtain n where t: "t \<noteq> []" "list_all (\<lambda>c. \<not> isspace c) t"
    and n: "list_all isspace (take n s)" "take (length t) (drop n s) = t"
      "drop (n + length t) s = [] \<or> isspace (hd (drop (n + length t) s))"
      "tokenization (drop (n + length t) s) ts"
    unfolding tokenization.simps list_ex_iff by blast
  have "drop n s = take (length t) (drop n s) @ drop (length t) (drop n s)"
    by (rule append_take_drop_id[symmetric])
  then have "drop n s = t @ drop (n + length t) s"
    using n(2) by (simp add: add.commute)
  then have "s = take n s @ t @ drop (n + length t) s"
    using append_take_drop_id[of n s] by simp
  with t n show ?thesis
    using that by blast
qed

lemma tokenization_unique: "tokenization s ts \<Longrightarrow> ts = parseCommand s"
proof (induction ts arbitrary: s)
  case Nil
  then show ?case
    by (simp add: parseCommand_unfold[of s] read_token_whitespace)
next
  case (Cons t ts)
  from Cons.prems obtain w r where s: "s = w @ t @ r" and w: "list_all isspace w" "t \<noteq> []"
    "list_all (\<lambda>c. \<not> isspace c) t" "r = [] \<or> isspace (hd r)" and r: "tokenization r ts"
    by (rule tokenization_tokenE)
  from Cons.IH[OF r] show ?case
    unfolding s by (simp add: parseCommand_unfold[of "w @ t @ r"] read_token_token[OF w])
qed

lemma read_token_None: "read_token s = None \<Longrightarrow> list_all isspace s"
proof -
  assume "read_token s = None"
  then have "dropWhile isspace s = []"
    by (simp add: read_token_def Let_def split: if_splits)
  then show ?thesis by (simp add: list_all_iff dropWhile_eq_Nil_conv)
qed

lemma read_token_Some:
  assumes "read_token s = Some (t, r)"
  shows "\<exists>w. s = w @ t @ r \<and> list_all isspace w \<and> t \<noteq> [] \<and>
             list_all (\<lambda>c. \<not> isspace c) t \<and> (r = [] \<or> isspace (hd r))"
proof -
  define rest where "rest = dropWhile isspace s"
  from assms have ne: "rest \<noteq> []" and t: "t = takeWhile (\<lambda>c. \<not> isspace c) rest"
    and r: "r = dropWhile (\<lambda>c. \<not> isspace c) rest"
    by (auto simp: read_token_def rest_def Let_def split: if_splits)
  have "\<not> isspace (hd rest)"
    using ne unfolding rest_def by (rule hd_dropWhile)
  with ne have "t \<noteq> []" unfolding t by (cases rest) auto
  moreover have "s = takeWhile isspace s @ t @ r"
    unfolding t r rest_def by simp
  moreover have "list_all isspace (takeWhile isspace s)"
    by (auto simp: list_all_iff dest: set_takeWhileD)
  moreover have "list_all (\<lambda>c. \<not> isspace c) t"
    unfolding t by (auto simp: list_all_iff dest: set_takeWhileD)
  moreover have "r = [] \<or> isspace (hd r)"
    unfolding r using hd_dropWhile[of "\<lambda>c. \<not> isspace c" rest] by auto
  ultimately show ?thesis by blast
qed

lemma tokenization_parseCommand: "tokenization s (parseCommand s)"
proof (induction s rule: length_induct)
  case (1 s)
  show ?case
  proof (cases "read_token s")
    case None
    then show ?thesis
      by (simp add: parseCommand_unfold[of s] read_token_None)
  next
    case (Some p)
    obtain t r where p: "p = (t, r)" by (cases p)
    from Some p have "length r < length s" by (simp add: read_token_shorter)
    with 1 have ih: "tokenization r (parseCommand r)" by blast
    from read_token_Some[of s t r] Some p obtain w where
      w: "s = w @ t @ r" "list_all isspace w" "t \<noteq> []" "list_all (\<lambda>c. \<not> isspace c) t"
         "r = [] \<or> isspace (hd r)" by auto
    have "tokenization (w @ t @ r) (t # parseCommand r)"
      using w(2-5) ih by (rule tokenization_token)
    moreover have "parseCommand s = t # parseCommand r"
      using Some p by (simp add: parseCommand_unfold[of s])
    ultimately show ?thesis using w(1) by simp
  qed
qed

lemma tokenization_tokens:
  "tokenization s ts \<Longrightarrow> \<forall>t \<in> set ts. t \<noteq> [] \<and> (\<forall>c \<in> set t. \<not> isspace c)"
proof (induction ts arbitrary: s)
  case Nil
  then show ?case by simp
next
  case (Cons t ts)
  from Cons.prems obtain w r where "t \<noteq> []" "list_all (\<lambda>c. \<not> isspace c) t" "tokenization r ts"
    by (rule tokenization_tokenE)
  with Cons.IH[of r] show ?case
    by (auto simp: list_all_iff)
qed

text \<open>
  C8: the tokenizer is a function of its input alone, and its result is the one and
  only way to cut the input into whitespace runs and non-empty, whitespace-free
  tokens that end at whitespace or at the end of the input, in input order. The line
  \<^verbatim>\<open>ls -la /tmp\<close> gives the three tokens, and a line of spaces gives none.
\<close>

theorem parseCommand_tokenizes:
  "(tokenization input tokens \<longleftrightarrow> tokens = parseCommand input) \<and>
   (\<forall>t \<in> set (parseCommand input). t \<noteq> [] \<and> (\<forall>c \<in> set t. \<not> isspace c)) \<and>
   parseCommand ''ls -la /tmp'' = [''ls'', ''-la'', ''/tmp''] \<and>
   (set spaces \<subseteq> {CHR '' ''} \<longrightarrow> parseCommand spaces = [])"
proof (intro conjI impI)
  show "tokenization input tokens \<longleftrightarrow> tokens = parseCommand input"
    using tokenization_unique tokenization_parseCommand by blast
  show "\<forall>t \<in> set (parseCommand input). t \<noteq> [] \<and> (\<forall>c \<in> set t. \<not> isspace c)"
    using tokenization_parseCommand by (rule tokenization_tokens)
  show "parseCommand ''ls -la /tmp'' = [''ls'', ''-la'', ''/tmp'']"
    by (simp add: parseCommand_def read_token_def isspace_def)
next
  assume "set spaces \<subseteq> {CHR '' ''}"
  then have "list_all isspace spaces"
    by (auto simp: list_all_iff isspace_def)
  then show "parseCommand spaces = []"
    by (simp add: parseCommand_unfold[of spaces] read_token_whitespace)
qed

theorem parseCommand_tokenizes_witness:
  "tokenization ''ls  -la '' [''ls'', ''-la''] \<and> parseCommand ''   '' = []"
proof -
  have e: "[''ls'', ''-la''] = parseCommand ''ls  -la ''"
    by (simp add: parseCommand_def read_token_def isspace_def)
  have s: "set ''   '' \<subseteq> {CHR '' ''}"
    by simp
  from parseCommand_tokenizes[of "''ls  -la ''" "[''ls'', ''-la'']" "''   ''"] e s
  show ?thesis by blast
qed

section \<open>Properties of the pipeline splitter\<close>

lemma split_loop_found:
  "split_loop args True cmd1 cmd2 = (cmd1, cmd2 @ without_pipes args)"
  by (induction args arbitrary: cmd2) (simp_all add: without_pipes_def)

lemma split_loop_not_found:
  "split_loop args False cmd1 cmd2 =
     (cmd1 @ tokens_before_first_pipe args,
      cmd2 @ without_pipes (tokens_after_first_pipe args))"
proof (induction args arbitrary: cmd1)
  case Nil
  show ?case
    by (simp add: tokens_before_first_pipe_def tokens_after_first_pipe_def without_pipes_def)
next
  case (Cons arg rest)
  show ?case
  proof (cases "arg = ''|''")
    case True
    then show ?thesis
      by (simp add: split_loop_found tokens_before_first_pipe_def tokens_after_first_pipe_def)
  next
    case False
    then show ?thesis
      using Cons.IH[of "cmd1 @ [arg]"]
      by (simp add: tokens_before_first_pipe_def tokens_after_first_pipe_def)
  qed
qed

text \<open>
  C1, as amended: for a token list with a \<^verbatim>\<open>|\<close>, stage 1 is the tokens strictly
  before the first \<^verbatim>\<open>|\<close>, and stage 2 is the tokens strictly after it with every
  further \<^verbatim>\<open>|\<close> left out; with no further \<^verbatim>\<open>|\<close>, stage 2 is all the tokens strictly
  after the first one.
\<close>

theorem split_commands_first_pipe:
  assumes "''|'' \<in> set args"
  shows "split_commands args =
           (tokens_before_first_pipe args, without_pipes (tokens_after_first_pipe args)) \<and>
         (''|'' \<notin> set (tokens_after_first_pipe args) \<longrightarrow>
            split_commands args = (tokens_before_first_pipe args, tokens_after_first_pipe args)) \<and>
         args = tokens_before_first_pipe args @ ''|'' # tokens_after_first_pipe args \<and>
         ''|'' \<notin> set (tokens_before_first_pipe args)"
proof (intro conjI impI)
  show s: "split_commands args =
           (tokens_before_first_pipe args, without_pipes (tokens_after_first_pipe args))"
    by (simp add: split_commands_def split_loop_not_found)
  show "split_commands args = (tokens_before_first_pipe args, tokens_after_first_pipe args)"
    if "''|'' \<notin> set (tokens_after_first_pipe args)"
  proof -
    from that have "without_pipes (tokens_after_first_pipe args) = tokens_after_first_pipe args"
      by (auto simp: without_pipes_def intro: filter_True)
    with s show ?thesis by simp
  qed
  from assms have ne: "dropWhile (\<lambda>arg. arg \<noteq> ''|'') args \<noteq> []"
    by (auto simp: dropWhile_eq_Nil_conv)
  then have "hd (dropWhile (\<lambda>arg. arg \<noteq> ''|'') args) = ''|''"
    using hd_dropWhile[of "\<lambda>arg. arg \<noteq> ''|''" args] by simp
  with ne have "dropWhile (\<lambda>arg. arg \<noteq> ''|'') args = ''|'' # tokens_after_first_pipe args"
    unfolding tokens_after_first_pipe_def by (cases "dropWhile (\<lambda>arg. arg \<noteq> ''|'') args") auto
  then show "args = tokens_before_first_pipe args @ ''|'' # tokens_after_first_pipe args"
    unfolding tokens_before_first_pipe_def by (metis takeWhile_dropWhile_id)
  show "''|'' \<notin> set (tokens_before_first_pipe args)"
    unfolding tokens_before_first_pipe_def by (auto dest: set_takeWhileD)
qed

theorem split_commands_first_pipe_witness:
  "''|'' \<in> set [''ls'', ''-l'', ''|'', ''wc'', ''-l''] \<and>
   split_commands [''ls'', ''-l'', ''|'', ''wc'', ''-l''] = ([''ls'', ''-l''], [''wc'', ''-l''])"
proof -
  have "''|'' \<in> set [''ls'', ''-l'', ''|'', ''wc'', ''-l'']" by simp
  from split_commands_first_pipe[OF this] show ?thesis
    by (simp add: tokens_before_first_pipe_def tokens_after_first_pipe_def without_pipes_def)
qed

text \<open>
  C1 as stated fails where a second \<^verbatim>\<open>|\<close> occurs: the loop skips every \<^verbatim>\<open>|\<close>, so the
  second one is not a token of stage 2.
\<close>

theorem split_commands_second_pipe_dropped:
  "''|'' \<in> set [''a'', ''|'', ''b'', ''|'', ''c''] \<and>
   snd (split_commands [''a'', ''|'', ''b'', ''|'', ''c'']) = [''b'', ''c''] \<and>
   tokens_after_first_pipe [''a'', ''|'', ''b'', ''|'', ''c''] = [''b'', ''|'', ''c''] \<and>
   snd (split_commands [''a'', ''|'', ''b'', ''|'', ''c'']) \<noteq>
     tokens_after_first_pipe [''a'', ''|'', ''b'', ''|'', ''c'']"
  by (simp add: split_commands_def tokens_after_first_pipe_def)

section \<open>Properties of the redirection resolver\<close>

lemma first_free_nonneg: "0 \<le> first_free k n used"
  by (induction k arbitrary: n) auto

lemma lowest_free_nonneg: "0 \<le> lowest_free used"
  by (simp add: lowest_free_def first_free_nonneg)

lemma sys_open_frame:
  assumes "sys_open os path flag st = (fd, st')"
  shows "children st' = children st" "unreaped st' = unreaped st" "n_fork st' = n_fork st"
    "n_pipe st' = n_pipe st" "n_wait st' = n_wait st"
    "log st' = log st @ [Open path flag fd]"
    "fd < 0 \<longleftrightarrow> \<not> open_ok os (n_open st) path flag"
    "fd < 0 \<Longrightarrow> fds st' = fds st"
  using assms lowest_free_nonneg[of "fds st"]
  by (auto simp: sys_open_def emit_def Let_def split: if_splits)

declare isRedirection_loop.simps [simp del]

lemma isRedirection_loop_end:
  "\<not> i < length args \<Longrightarrow>
   isRedirection_loop os args i inFile outFile st = (True, inFile, outFile, st)"
  by (simp add: isRedirection_loop.simps[of os args i])

lemma isRedirection_loop_skip:
  "i < length args \<Longrightarrow> \<not> (Suc i < length args \<and> (args ! i = ''<'' \<or> args ! i = ''>'')) \<Longrightarrow>
   isRedirection_loop os args i inFile outFile st =
     isRedirection_loop os args (Suc i) inFile outFile st"
  by (auto simp: isRedirection_loop.simps[of os args i])

lemma isRedirection_loop_in:
  "Suc i < length args \<Longrightarrow> args ! i = ''<'' \<Longrightarrow>
   sys_open os (args ! Suc i) O_RDONLY st = (fd, st1) \<Longrightarrow>
   isRedirection_loop os args i inFile outFile st =
     (if fd < 0 then (False, fd, outFile, emit (open_error (args ! Suc i)) st1)
      else isRedirection_loop os args (Suc i) fd outFile st1)"
  by (simp add: isRedirection_loop.simps[of os args i])

lemma isRedirection_loop_out:
  "Suc i < length args \<Longrightarrow> args ! i = ''>'' \<Longrightarrow>
   sys_open os (args ! Suc i) O_WRONLY_CREAT_TRUNC st = (fd, st1) \<Longrightarrow>
   isRedirection_loop os args i inFile outFile st =
     (if fd < 0 then (False, inFile, fd, emit (open_error (args ! Suc i)) st1)
      else isRedirection_loop os args (Suc i) inFile fd st1)"
  by (simp add: isRedirection_loop.simps[of os args i])

lemma resolver_frame_iff:
  "resolver_frame st st' \<longleftrightarrow>
     children st' = children st \<and> unreaped st' = unreaped st \<and> n_fork st' = n_fork st \<and>
     n_pipe st' = n_pipe st \<and> n_wait st' = n_wait st \<and>
     (\<exists>evs. log st' = log st @ evs \<and> (\<forall>e \<in> set evs. \<not> is_process_event e))"
proof -
  have "(take (length (log st)) (log st') = log st \<and>
         list_all (\<lambda>e. \<not> is_process_event e) (drop (length (log st)) (log st'))) \<longleftrightarrow>
        (\<exists>evs. log st' = log st @ evs \<and> (\<forall>e \<in> set evs. \<not> is_process_event e))"
    (is "?l \<longleftrightarrow> ?r")
  proof
    assume ?l
    then have "log st' = log st @ drop (length (log st)) (log st')"
      by (metis append_take_drop_id)
    with \<open>?l\<close> show ?r
      by (auto simp: list_all_iff)
  next
    assume ?r
    then show ?l
      by (auto simp: list_all_iff)
  qed
  then show ?thesis
    unfolding resolver_frame_def by simp
qed

lemma resolver_frame_refl: "resolver_frame st st"
  by (simp add: resolver_frame_iff)

lemma resolver_frame_open:
  assumes "sys_open os path flag st = (fd, st1)" "resolver_frame st1 st'"
  shows "resolver_frame st st'"
  using assms(2) sys_open_frame(1-6)[OF assms(1)]
  by (auto simp: resolver_frame_iff)

lemma resolver_frame_open_error:
  assumes "sys_open os path flag st = (fd, st1)"
  shows "resolver_frame st (emit (open_error path) st1)"
  using sys_open_frame(1-6)[OF assms]
  by (simp add: resolver_frame_iff emit_def open_error_def)

lemma isRedirection_loop_frame:
  "resolver_frame st (snd (snd (snd (isRedirection_loop os args i inFile outFile st))))"
proof (induction "length args - i" arbitrary: i inFile outFile st)
  case 0
  then show ?case
    by (simp add: isRedirection_loop_end resolver_frame_refl)
next
  case (Suc n)
  then have i: "i < length args" and n: "n = length args - Suc i"
    by auto
  note IH = Suc.hyps(1)[OF n]
  consider (skip) "\<not> (Suc i < length args \<and> (args ! i = ''<'' \<or> args ! i = ''>''))"
    | (inp) "Suc i < length args" "args ! i = ''<''"
    | (out) "Suc i < length args" "args ! i = ''>''"
    by blast
  then show ?case
  proof cases
    case skip
    then show ?thesis
      using IH by (simp add: isRedirection_loop_skip[OF i])
  next
    case inp
    obtain fd st1 where o: "sys_open os (args ! Suc i) O_RDONLY st = (fd, st1)"
      by (cases "sys_open os (args ! Suc i) O_RDONLY st")
    show ?thesis
      using resolver_frame_open[OF o IH] resolver_frame_open_error[OF o]
      by (simp add: isRedirection_loop_in[OF inp o])
  next
    case out
    obtain fd st1 where o: "sys_open os (args ! Suc i) O_WRONLY_CREAT_TRUNC st = (fd, st1)"
      by (cases "sys_open os (args ! Suc i) O_WRONLY_CREAT_TRUNC st")
    show ?thesis
      using resolver_frame_open[OF o IH] resolver_frame_open_error[OF o]
      by (simp add: isRedirection_loop_out[OF out o])
  qed
qed

lemma isRedirection_loop_failure:
  assumes "\<not> fst (isRedirection_loop os args i inFile outFile st)"
  shows "\<exists>path flag evs.
           log (snd (snd (snd (isRedirection_loop os args i inFile outFile st)))) =
             log st @ evs @ [Open path flag (- 1), open_error path]"
  using assms
proof (induction "length args - i" arbitrary: i inFile outFile st)
  case 0
  then show ?case
    by (simp add: isRedirection_loop_end)
next
  case (Suc n)
  then have i: "i < length args" and n: "n = length args - Suc i"
    by auto
  note IH = Suc.hyps(1)[OF n]
  have step: ?case
    if o: "sys_open os path flag st = (fd, st1)"
      and r: "isRedirection_loop os args i inFile outFile st =
               (if fd < 0 then (False, a, b, emit (open_error path) st1)
                else isRedirection_loop os args (Suc i) c d st1)"
    for path flag fd st1 a b c d
  proof (cases "fd < 0")
    case True
    then have "fd = - 1"
      using o lowest_free_nonneg[of "fds st"] by (auto simp: sys_open_def Let_def split: if_splits)
    then have "log (emit (open_error path) st1) = log st @ [] @ [Open path flag (- 1), open_error path]"
      using sys_open_frame(6)[OF o] by (simp add: emit_def)
    then show ?thesis
      using True r by (metis snd_conv)
  next
    case False
    with r Suc.prems have "\<not> fst (isRedirection_loop os args (Suc i) c d st1)"
      by simp
    from IH[OF this] obtain p f evs where
      "log (snd (snd (snd (isRedirection_loop os args (Suc i) c d st1)))) =
         log st1 @ evs @ [Open p f (- 1), open_error p]"
      by blast
    then have "log (snd (snd (snd (isRedirection_loop os args (Suc i) c d st1)))) =
         log st @ (Open path flag fd # evs) @ [Open p f (- 1), open_error p]"
      using sys_open_frame(6)[OF o] by simp
    then show ?thesis
      using False r by metis
  qed
  consider (skip) "\<not> (Suc i < length args \<and> (args ! i = ''<'' \<or> args ! i = ''>''))"
    | (inp) "Suc i < length args" "args ! i = ''<''"
    | (out) "Suc i < length args" "args ! i = ''>''"
    by blast
  then show ?case
  proof cases
    case skip
    then show ?thesis
      using IH[of inFile outFile st] Suc.prems by (simp add: isRedirection_loop_skip[OF i])
  next
    case inp
    obtain fd st1 where o: "sys_open os (args ! Suc i) O_RDONLY st = (fd, st1)"
      by (cases "sys_open os (args ! Suc i) O_RDONLY st")
    show ?thesis
      by (rule step[OF o isRedirection_loop_in[OF inp o]])
  next
    case out
    obtain fd st1 where o: "sys_open os (args ! Suc i) O_WRONLY_CREAT_TRUNC st = (fd, st1)"
      by (cases "sys_open os (args ! Suc i) O_WRONLY_CREAT_TRUNC st")
    show ?thesis
      by (rule step[OF o isRedirection_loop_out[OF out o]])
  qed
qed

lemma isRedirection_loop_unopenable:
  assumes "i \<le> j" "Suc j < length args"
    and "(args ! j = ''<'' \<and> (\<forall>k. \<not> open_ok os k (args ! Suc j) O_RDONLY)) \<or>
         (args ! j = ''>'' \<and> (\<forall>k. \<not> open_ok os k (args ! Suc j) O_WRONLY_CREAT_TRUNC))"
  shows "\<not> fst (isRedirection_loop os args i inFile outFile st)"
  using assms(1)
proof (induction "length args - i" arbitrary: i inFile outFile st)
  case 0
  then show ?case using assms(2) by simp
next
  case (Suc n)
  then have i: "i < length args" and n: "n = length args - Suc i"
    by auto
  note IH = Suc.hyps(1)[OF n]
  consider (skip) "\<not> (Suc i < length args \<and> (args ! i = ''<'' \<or> args ! i = ''>''))"
    | (inp) "Suc i < length args" "args ! i = ''<''"
    | (out) "Suc i < length args" "args ! i = ''>''"
    by blast
  then show ?case
  proof cases
    case skip
    with assms(2,3) have "i \<noteq> j" by auto
    with Suc.prems have "Suc i \<le> j" by simp
    then show ?thesis
      using IH by (simp add: isRedirection_loop_skip[OF i skip])
  next
    case inp
    obtain fd st1 where o: "sys_open os (args ! Suc i) O_RDONLY st = (fd, st1)"
      by (cases "sys_open os (args ! Suc i) O_RDONLY st")
    show ?thesis
    proof (cases "fd < 0")
      case True
      then show ?thesis by (simp add: isRedirection_loop_in[OF inp o])
    next
      case False
      then have "open_ok os (n_open st) (args ! Suc i) O_RDONLY"
        using sys_open_frame(7)[OF o] by simp
      with assms(3) inp(2) have "i \<noteq> j" by auto
      with Suc.prems have "Suc i \<le> j" by simp
      then show ?thesis
        using IH False by (simp add: isRedirection_loop_in[OF inp o])
    qed
  next
    case out
    obtain fd st1 where o: "sys_open os (args ! Suc i) O_WRONLY_CREAT_TRUNC st = (fd, st1)"
      by (cases "sys_open os (args ! Suc i) O_WRONLY_CREAT_TRUNC st")
    show ?thesis
    proof (cases "fd < 0")
      case True
      then show ?thesis by (simp add: isRedirection_loop_out[OF out o])
    next
      case False
      then have "open_ok os (n_open st) (args ! Suc i) O_WRONLY_CREAT_TRUNC"
        using sys_open_frame(7)[OF o] by simp
      with assms(3) out(2) have "i \<noteq> j" by auto
      with Suc.prems have "Suc i \<le> j" by simp
      then show ?thesis
        using IH False by (simp add: isRedirection_loop_out[OF out o])
    qed
  qed
qed

lemma executeCommand_resolver_failed:
  "\<not> fst (isRedirection os args st) \<Longrightarrow>
   executeCommand os args st = snd (snd (snd (isRedirection os args st)))"
  by (cases "isRedirection os args st") (auto simp: executeCommand_def)

lemma isRedirection_frame:
  "resolver_frame st (snd (snd (snd (isRedirection os args st))))"
  by (simp add: isRedirection_def isRedirection_loop_frame)

text \<open>
  C3: when some \<^verbatim>\<open><\<close> is followed by a path that no \<^verbatim>\<open>open\<close> for reading accepts, or
  some \<^verbatim>\<open>>\<close> by a path that no \<^verbatim>\<open>open\<close> for writing accepts, the resolver returns
  failure, the last thing it does is report a failed \<^verbatim>\<open>open\<close>, and
  \<^verbatim>\<open>executeCommand\<close> returns there: no child is created, no \<^verbatim>\<open>fork\<close> is attempted
  and no wait is performed.
\<close>

theorem executeCommand_open_failure:
  assumes "Suc j < length args"
    and "(args ! j = ''<'' \<and> (\<forall>k. \<not> open_ok os k (args ! Suc j) O_RDONLY)) \<or>
         (args ! j = ''>'' \<and> (\<forall>k. \<not> open_ok os k (args ! Suc j) O_WRONLY_CREAT_TRUNC))"
  shows "\<not> fst (isRedirection os args st) \<and>
         executeCommand os args st = snd (snd (snd (isRedirection os args st))) \<and>
         (\<exists>path flag evs.
            log (executeCommand os args st) =
              log st @ evs @ [Open path flag (- 1), open_error path] \<and>
            (\<forall>e \<in> set evs. \<not> is_process_event e)) \<and>
         children (executeCommand os args st) = children st \<and>
         unreaped (executeCommand os args st) = unreaped st \<and>
         n_fork (executeCommand os args st) = n_fork st"
proof -
  let ?st' = "snd (snd (snd (isRedirection os args st)))"
  have failed: "\<not> fst (isRedirection os args st)"
    unfolding isRedirection_def
    using isRedirection_loop_unopenable[OF _ assms(1) assms(2), of 0] by simp
  then have same: "executeCommand os args st = ?st'"
    by (rule executeCommand_resolver_failed)
  from failed obtain path flag evs where
    l: "log ?st' = log st @ evs @ [Open path flag (- 1), open_error path]"
    unfolding isRedirection_def using isRedirection_loop_failure by blast
  have frame: "resolver_frame st ?st'"
    by (rule isRedirection_frame)
  then obtain evs' where "log ?st' = log st @ evs'" "\<forall>e \<in> set evs'. \<not> is_process_event e"
    unfolding resolver_frame_iff by blast
  with l have "\<forall>e \<in> set evs. \<not> is_process_event e"
    by auto
  with l failed same frame show ?thesis
    unfolding resolver_frame_iff by auto
qed

theorem executeCommand_open_failure_witness:
  "Suc 1 < length [''sort'', ''<'', ''missing.txt''] \<and>
   [''sort'', ''<'', ''missing.txt''] ! 1 = ''<'' \<and>
   (\<forall>k. \<not> open_ok os_missing k ([''sort'', ''<'', ''missing.txt''] ! Suc 1) O_RDONLY) \<and>
   \<not> fst (isRedirection os_missing [''sort'', ''<'', ''missing.txt''] shell0) \<and>
   children (executeCommand os_missing [''sort'', ''<'', ''missing.txt''] shell0) = [] \<and>
   log (executeCommand os_missing [''sort'', ''<'', ''missing.txt''] shell0) =
     [Open ''missing.txt'' O_RDONLY (- 1),
      Stderr ''Error: No se pudo abrir el archivo missing.txt'']"
proof -
  have h1: "Suc 1 < length [''sort'', ''<'', ''missing.txt'']"
    by simp
  have h2: "([''sort'', ''<'', ''missing.txt''] ! 1 = ''<'' \<and>
             (\<forall>k. \<not> open_ok os_missing k ([''sort'', ''<'', ''missing.txt''] ! Suc 1) O_RDONLY)) \<or>
            ([''sort'', ''<'', ''missing.txt''] ! 1 = ''>'' \<and>
             (\<forall>k. \<not> open_ok os_missing k ([''sort'', ''<'', ''missing.txt''] ! Suc 1)
                      O_WRONLY_CREAT_TRUNC))"
    by (simp add: os_missing_def os_ok_def)
  have l: "log (executeCommand os_missing [''sort'', ''<'', ''missing.txt''] shell0) =
     [Open ''missing.txt'' O_RDONLY (- 1),
      Stderr ''Error: No se pudo abrir el archivo missing.txt'']"
    by (simp add: executeCommand_def isRedirection_def isRedirection_loop.simps sys_open_def
        emit_def open_error_def os_missing_def os_ok_def shell0_def)
  have c: "children shell0 = []"
    by (simp add: shell0_def)
  have h3: "\<forall>k. \<not> open_ok os_missing k ([''sort'', ''<'', ''missing.txt''] ! Suc 1) O_RDONLY"
    by (simp add: os_missing_def os_ok_def)
  from executeCommand_open_failure[OF h1 h2, of shell0]
  have t1: "\<not> fst (isRedirection os_missing [''sort'', ''<'', ''missing.txt''] shell0)"
    and t2: "children (executeCommand os_missing [''sort'', ''<'', ''missing.txt''] shell0) =
             children shell0"
    by blast+
  have h0: "[''sort'', ''<'', ''missing.txt''] ! 1 = ''<''"
    by simp
  from h1 h0 h3 t1 t2[unfolded c] l show ?thesis
    by blast
qed

lemma isRedirection_loop_no_operator:
  assumes "\<forall>m. i \<le> m \<and> Suc m < length args \<longrightarrow> args ! m \<noteq> ''<'' \<and> args ! m \<noteq> ''>''"
  shows "isRedirection_loop os args i inFile outFile st = (True, inFile, outFile, st)"
  using assms
proof (induction "length args - i" arbitrary: i)
  case 0
  then show ?case
    by (simp add: isRedirection_loop_end)
next
  case (Suc n)
  then have i: "i < length args" and n: "n = length args - Suc i"
    by auto
  have "\<not> (Suc i < length args \<and> (args ! i = ''<'' \<or> args ! i = ''>''))"
    using Suc.prems by auto
  then have "isRedirection_loop os args i inFile outFile st =
             isRedirection_loop os args (Suc i) inFile outFile st"
    by (rule isRedirection_loop_skip[OF i])
  also have "\<dots> = (True, inFile, outFile, st)"
    using Suc.hyps(1)[OF n] Suc.prems by simp
  finally show ?case .
qed

lemma isRedirection_loop_failure_at:
  assumes "\<not> fst (isRedirection_loop os args i inFile outFile st)"
  shows "\<exists>m flag evs.
           i \<le> m \<and> Suc m < length args \<and>
           (args ! m = ''<'' \<and> flag = O_RDONLY \<or>
            args ! m = ''>'' \<and> flag = O_WRONLY_CREAT_TRUNC) \<and>
           log (snd (snd (snd (isRedirection_loop os args i inFile outFile st)))) =
             log st @ evs @ [Open (args ! Suc m) flag (- 1), open_error (args ! Suc m)]"
  using assms
proof (induction "length args - i" arbitrary: i inFile outFile st)
  case 0
  then show ?case
    by (simp add: isRedirection_loop_end)
next
  case (Suc n)
  then have i: "i < length args" and n: "n = length args - Suc i"
    by auto
  note IH = Suc.hyps(1)[OF n]
  have step: ?case
    if o: "sys_open os (args ! Suc i) flag st = (fd, st1)"
      and here: "Suc i < length args"
        "args ! i = ''<'' \<and> flag = O_RDONLY \<or> args ! i = ''>'' \<and> flag = O_WRONLY_CREAT_TRUNC"
      and r: "isRedirection_loop os args i inFile outFile st =
               (if fd < 0 then (False, a, b, emit (open_error (args ! Suc i)) st1)
                else isRedirection_loop os args (Suc i) c d st1)"
    for flag fd st1 a b c d
  proof (cases "fd < 0")
    case True
    then have "fd = - 1"
      using o lowest_free_nonneg[of "fds st"] by (auto simp: sys_open_def Let_def split: if_splits)
    then have "log (emit (open_error (args ! Suc i)) st1) =
                 log st @ [] @ [Open (args ! Suc i) flag (- 1), open_error (args ! Suc i)]"
      using sys_open_frame(6)[OF o] by (simp add: emit_def)
    then have "log (snd (snd (snd (isRedirection_loop os args i inFile outFile st)))) =
                 log st @ [] @ [Open (args ! Suc i) flag (- 1), open_error (args ! Suc i)]"
      using True r by simp
    with here show ?thesis
      by blast
  next
    case False
    with r Suc.prems have "\<not> fst (isRedirection_loop os args (Suc i) c d st1)"
      by simp
    from IH[OF this] obtain m f evs where m: "Suc i \<le> m" "Suc m < length args"
      "args ! m = ''<'' \<and> f = O_RDONLY \<or> args ! m = ''>'' \<and> f = O_WRONLY_CREAT_TRUNC"
      "log (snd (snd (snd (isRedirection_loop os args (Suc i) c d st1)))) =
         log st1 @ evs @ [Open (args ! Suc m) f (- 1), open_error (args ! Suc m)]"
      by blast
    from m(4) have "log (snd (snd (snd (isRedirection_loop os args i inFile outFile st)))) =
         log st @ (Open (args ! Suc i) flag fd # evs) @
           [Open (args ! Suc m) f (- 1), open_error (args ! Suc m)]"
      using sys_open_frame(6)[OF o] False r by simp
    moreover from m(1) have "i \<le> m"
      by simp
    ultimately show ?thesis
      using m(2,3) by blast
  qed
  consider (skip) "\<not> (Suc i < length args \<and> (args ! i = ''<'' \<or> args ! i = ''>''))"
    | (inp) "Suc i < length args" "args ! i = ''<''"
    | (out) "Suc i < length args" "args ! i = ''>''"
    by blast
  then show ?case
  proof cases
    case skip
    from Suc.prems have "\<not> fst (isRedirection_loop os args (Suc i) inFile outFile st)"
      by (simp add: isRedirection_loop_skip[OF i skip])
    from IH[OF this] obtain m f evs where m: "Suc i \<le> m" "Suc m < length args"
      "args ! m = ''<'' \<and> f = O_RDONLY \<or> args ! m = ''>'' \<and> f = O_WRONLY_CREAT_TRUNC"
      "log (snd (snd (snd (isRedirection_loop os args (Suc i) inFile outFile st)))) =
         log st @ evs @ [Open (args ! Suc m) f (- 1), open_error (args ! Suc m)]"
      by blast
    from m(1) have "i \<le> m"
      by simp
    with m(2-4) show ?thesis
      unfolding isRedirection_loop_skip[OF i skip] by blast
  next
    case inp
    obtain fd st1 where o: "sys_open os (args ! Suc i) O_RDONLY st = (fd, st1)"
      by (cases "sys_open os (args ! Suc i) O_RDONLY st")
    show ?thesis
      using inp by (intro step[OF o _ _ isRedirection_loop_in[OF inp o]]) simp_all
  next
    case out
    obtain fd st1 where o: "sys_open os (args ! Suc i) O_WRONLY_CREAT_TRUNC st = (fd, st1)"
      by (cases "sys_open os (args ! Suc i) O_WRONLY_CREAT_TRUNC st")
    show ?thesis
      using out by (intro step[OF o _ _ isRedirection_loop_out[OF out o]]) simp_all
  qed
qed

lemma isRedirection_loop_outFile:
  assumes "\<forall>m. i \<le> m \<and> Suc m < length args \<longrightarrow> args ! m \<noteq> ''>''"
  shows "fst (snd (snd (isRedirection_loop os args i inFile outFile st))) = outFile"
  using assms
proof (induction "length args - i" arbitrary: i inFile st)
  case 0
  then show ?case
    by (simp add: isRedirection_loop_end)
next
  case (Suc n)
  then have i: "i < length args" and n: "n = length args - Suc i"
    by auto
  have IH: "fst (snd (snd (isRedirection_loop os args (Suc i) inFile' outFile st'))) = outFile"
    for inFile' st'
    using Suc.hyps(1)[OF n] Suc.prems by simp
  consider (skip) "\<not> (Suc i < length args \<and> (args ! i = ''<'' \<or> args ! i = ''>''))"
    | (inp) "Suc i < length args" "args ! i = ''<''"
    | (out) "Suc i < length args" "args ! i = ''>''"
    by blast
  then show ?case
  proof cases
    case skip
    then show ?thesis
      using IH by (simp add: isRedirection_loop_skip[OF i])
  next
    case inp
    obtain fd st1 where o: "sys_open os (args ! Suc i) O_RDONLY st = (fd, st1)"
      by (cases "sys_open os (args ! Suc i) O_RDONLY st")
    show ?thesis
      using IH by (simp add: isRedirection_loop_in[OF inp o])
  next
    case out
    with Suc.prems show ?thesis
      by auto
  qed
qed

lemma isRedirection_loop_inFile:
  assumes "\<forall>m. i \<le> m \<and> Suc m < length args \<longrightarrow> args ! m \<noteq> ''<''"
  shows "fst (snd (isRedirection_loop os args i inFile outFile st)) = inFile"
  using assms
proof (induction "length args - i" arbitrary: i outFile st)
  case 0
  then show ?case
    by (simp add: isRedirection_loop_end)
next
  case (Suc n)
  then have i: "i < length args" and n: "n = length args - Suc i"
    by auto
  have IH: "fst (snd (isRedirection_loop os args (Suc i) inFile outFile' st')) = inFile"
    for outFile' st'
    using Suc.hyps(1)[OF n] Suc.prems by simp
  consider (skip) "\<not> (Suc i < length args \<and> (args ! i = ''<'' \<or> args ! i = ''>''))"
    | (inp) "Suc i < length args" "args ! i = ''<''"
    | (out) "Suc i < length args" "args ! i = ''>''"
    by blast
  then show ?case
  proof cases
    case skip
    then show ?thesis
      using IH by (simp add: isRedirection_loop_skip[OF i])
  next
    case inp
    with Suc.prems show ?thesis
      by auto
  next
    case out
    obtain fd st1 where o: "sys_open os (args ! Suc i) O_WRONLY_CREAT_TRUNC st = (fd, st1)"
      by (cases "sys_open os (args ! Suc i) O_WRONLY_CREAT_TRUNC st")
    show ?thesis
      using IH by (simp add: isRedirection_loop_out[OF out o])
  qed
qed

lemma not_in_butlast_nth:
  assumes "x \<notin> set (butlast xs)" "Suc m < length xs"
  shows "xs ! m \<noteq> x"
proof -
  from assms(2) have "m < length (butlast xs)"
    by simp
  then have "butlast xs ! m \<in> set (butlast xs)" "butlast xs ! m = xs ! m"
    by (rule nth_mem, rule nth_butlast)
  with assms(1) show ?thesis
    by metis
qed

text \<open>
  C7, as amended: where \<^verbatim>\<open><\<close> or \<^verbatim>\<open>>\<close> is the last token, the scan step at that token
  opens nothing, reports nothing, leaves both descriptors as they are and ends the
  scan with success. Resolution returns success unless the \<^verbatim>\<open>open\<close> of an earlier
  redirection, one that has a file name, failed. The descriptor of the trailing
  operator stays unset unless the same operator occurs earlier in the list; so with
  no operator at all before the last token, resolution succeeds with both
  descriptors unset and the state untouched.
\<close>

theorem isRedirection_trailing_operator:
  assumes "args \<noteq> []" and "last args = ''<'' \<or> last args = ''>''"
  shows "isRedirection_loop os args (length args - 1) inFile outFile st =
           (True, inFile, outFile, st) \<and>
         ((\<forall>arg \<in> set (butlast args). arg \<noteq> ''<'' \<and> arg \<noteq> ''>'') \<longrightarrow>
            isRedirection os args st = (True, - 1, - 1, st)) \<and>
         (\<not> fst (isRedirection os args st) \<longrightarrow>
            (\<exists>m flag evs.
               Suc m < length args \<and>
               (args ! m = ''<'' \<and> flag = O_RDONLY \<or>
                args ! m = ''>'' \<and> flag = O_WRONLY_CREAT_TRUNC) \<and>
               log (snd (snd (snd (isRedirection os args st)))) =
                 log st @ evs @ [Open (args ! Suc m) flag (- 1), open_error (args ! Suc m)])) \<and>
         (last args = ''>'' \<and> ''>'' \<notin> set (butlast args) \<longrightarrow>
            fst (snd (snd (isRedirection os args st))) = - 1) \<and>
         (last args = ''<'' \<and> ''<'' \<notin> set (butlast args) \<longrightarrow>
            fst (snd (isRedirection os args st)) = - 1)"
proof (intro conjI impI)
  show "isRedirection_loop os args (length args - 1) inFile outFile st =
          (True, inFile, outFile, st)"
    by (rule isRedirection_loop_no_operator) auto
  show "isRedirection os args st = (True, - 1, - 1, st)"
    if none: "\<forall>arg \<in> set (butlast args). arg \<noteq> ''<'' \<and> arg \<noteq> ''>''"
    unfolding isRedirection_def
  proof (rule isRedirection_loop_no_operator, intro allI impI)
    fix m
    assume "0 \<le> m \<and> Suc m < length args"
    moreover from none have "''<'' \<notin> set (butlast args)" "''>'' \<notin> set (butlast args)"
      by auto
    ultimately show "args ! m \<noteq> ''<'' \<and> args ! m \<noteq> ''>''"
      using not_in_butlast_nth[of "''<''" args m] not_in_butlast_nth[of "''>''" args m] by blast
  qed
  show "\<exists>m flag evs.
          Suc m < length args \<and>
          (args ! m = ''<'' \<and> flag = O_RDONLY \<or>
           args ! m = ''>'' \<and> flag = O_WRONLY_CREAT_TRUNC) \<and>
          log (snd (snd (snd (isRedirection os args st)))) =
            log st @ evs @ [Open (args ! Suc m) flag (- 1), open_error (args ! Suc m)]"
    if "\<not> fst (isRedirection os args st)"
    using isRedirection_loop_failure_at[OF that[unfolded isRedirection_def]]
    unfolding isRedirection_def by blast
  show "fst (snd (snd (isRedirection os args st))) = - 1"
    if h: "last args = ''>'' \<and> ''>'' \<notin> set (butlast args)"
  proof -
    have "\<forall>m. 0 \<le> m \<and> Suc m < length args \<longrightarrow> args ! m \<noteq> ''>''"
      using h not_in_butlast_nth[of "''>''" args] by blast
    then show ?thesis
      unfolding isRedirection_def by (rule isRedirection_loop_outFile)
  qed
  show "fst (snd (isRedirection os args st)) = - 1"
    if h: "last args = ''<'' \<and> ''<'' \<notin> set (butlast args)"
  proof -
    have "\<forall>m. 0 \<le> m \<and> Suc m < length args \<longrightarrow> args ! m \<noteq> ''<''"
      using h not_in_butlast_nth[of "''<''" args] by blast
    then show ?thesis
      unfolding isRedirection_def by (rule isRedirection_loop_inFile)
  qed
qed

theorem isRedirection_trailing_operator_witness:
  "[''sort'', ''<'', ''in.txt'', ''>''] \<noteq> [] \<and>
   last [''sort'', ''<'', ''in.txt'', ''>''] = ''>'' \<and>
   isRedirection_loop os_ok [''sort'', ''<'', ''in.txt'', ''>'']
       (length [''sort'', ''<'', ''in.txt'', ''>''] - 1) 3 (- 1) shell0 =
     (True, 3, - 1, shell0) \<and>
   ''>'' \<notin> set (butlast [''sort'', ''<'', ''in.txt'', ''>'']) \<and>
   fst (snd (snd (isRedirection os_ok [''sort'', ''<'', ''in.txt'', ''>''] shell0))) = - 1 \<and>
   last [''sort'', ''>'', ''out.txt'', ''<''] = ''<'' \<and>
   ''<'' \<notin> set (butlast [''sort'', ''>'', ''out.txt'', ''<'']) \<and>
   fst (snd (isRedirection os_ok [''sort'', ''>'', ''out.txt'', ''<''] shell0)) = - 1 \<and>
   ''<'' \<notin> set (butlast [''sort'', ''>'']) \<and> ''>'' \<notin> set (butlast [''sort'', ''>'']) \<and>
   isRedirection os_ok [''sort'', ''>''] shell0 = (True, - 1, - 1, shell0) \<and>
   \<not> fst (isRedirection os_missing [''sort'', ''<'', ''missing.txt'', ''>''] shell0) \<and>
   (\<exists>m flag evs.
      Suc m < length [''sort'', ''<'', ''missing.txt'', ''>''] \<and>
      log (snd (snd (snd (isRedirection os_missing [''sort'', ''<'', ''missing.txt'', ''>'']
                            shell0)))) =
        log shell0 @ evs @
          [Open ([''sort'', ''<'', ''missing.txt'', ''>''] ! Suc m) flag (- 1),
           open_error ([''sort'', ''<'', ''missing.txt'', ''>''] ! Suc m)])"
proof -
  have a: "[''sort'', ''<'', ''in.txt'', ''>''] \<noteq> []"
    and b: "last [''sort'', ''<'', ''in.txt'', ''>''] = ''>''"
    and b': "''>'' \<notin> set (butlast [''sort'', ''<'', ''in.txt'', ''>''])"
    by simp_all
  have a2: "[''sort'', ''>'', ''out.txt'', ''<''] \<noteq> []"
    and b2: "last [''sort'', ''>'', ''out.txt'', ''<''] = ''<''"
    and b2': "''<'' \<notin> set (butlast [''sort'', ''>'', ''out.txt'', ''<''])"
    by simp_all
  have c: "[''sort'', ''>''] \<noteq> []" and d: "last [''sort'', ''>''] = ''>''"
    and e: "\<forall>arg \<in> set (butlast [''sort'', ''>'']). arg \<noteq> ''<'' \<and> arg \<noteq> ''>''"
    and e': "''<'' \<notin> set (butlast [''sort'', ''>''])" "''>'' \<notin> set (butlast [''sort'', ''>''])"
    by simp_all
  have f: "[''sort'', ''<'', ''missing.txt'', ''>''] \<noteq> []"
    and g: "last [''sort'', ''<'', ''missing.txt'', ''>''] = ''>''"
    by simp_all
  have h: "\<not> fst (isRedirection os_missing [''sort'', ''<'', ''missing.txt'', ''>''] shell0)"
    by (simp add: isRedirection_def isRedirection_loop.simps sys_open_def
        os_missing_def os_ok_def shell0_def)
  from isRedirection_trailing_operator[OF a disjI2[OF b], of os_ok 3 "- 1" shell0]
  have 1: "isRedirection_loop os_ok [''sort'', ''<'', ''in.txt'', ''>'']
       (length [''sort'', ''<'', ''in.txt'', ''>''] - 1) 3 (- 1) shell0 =
     (True, 3, - 1, shell0)"
    by blast
  from isRedirection_trailing_operator[OF a disjI2[OF b], of os_ok _ _ shell0] b b'
  have 4: "fst (snd (snd (isRedirection os_ok [''sort'', ''<'', ''in.txt'', ''>''] shell0))) = - 1"
    by blast
  from isRedirection_trailing_operator[OF a2 disjI1[OF b2], of os_ok _ _ shell0] b2 b2'
  have 5: "fst (snd (isRedirection os_ok [''sort'', ''>'', ''out.txt'', ''<''] shell0)) = - 1"
    by blast
  from isRedirection_trailing_operator[OF c disjI2[OF d], of os_ok _ _ shell0] e
  have 2: "isRedirection os_ok [''sort'', ''>''] shell0 = (True, - 1, - 1, shell0)"
    by blast
  from isRedirection_trailing_operator[OF f disjI2[OF g], of os_missing _ _ shell0] h
  have 3: "\<exists>m flag evs.
      Suc m < length [''sort'', ''<'', ''missing.txt'', ''>''] \<and>
      log (snd (snd (snd (isRedirection os_missing [''sort'', ''<'', ''missing.txt'', ''>'']
                            shell0)))) =
        log shell0 @ evs @
          [Open ([''sort'', ''<'', ''missing.txt'', ''>''] ! Suc m) flag (- 1),
           open_error ([''sort'', ''<'', ''missing.txt'', ''>''] ! Suc m)]"
    by blast
  from a b 1 b' 4 b2 b2' 5 e' 2 h 3 show ?thesis
    by blast
qed

text \<open>
  C7 as stated fails where the same operator occurs earlier with a file name: the
  trailing \<^verbatim>\<open>>\<close> is ignored, and the output descriptor is set all the same. It also
  fails where an earlier redirection cannot be opened: resolution then reports an
  error and returns failure.
\<close>

theorem isRedirection_trailing_operator_after_failure:
  "last [''cmd'', ''>'', ''a'', ''>''] = ''>'' \<and>
   isRedirection os_ok [''cmd'', ''>'', ''a'', ''>''] shell0 =
     (True, - 1, 3,
      shell0\<lparr>fds := [0, 1, 2, 3], log := [Open ''a'' O_WRONLY_CREAT_TRUNC 3], n_open := 1\<rparr>) \<and>
   last [''sort'', ''<'', ''missing.txt'', ''>''] = ''>'' \<and>
   isRedirection os_missing [''sort'', ''<'', ''missing.txt'', ''>''] shell0 =
     (False, - 1, - 1,
      shell0\<lparr>log := [Open ''missing.txt'' O_RDONLY (- 1),
                      Stderr ''Error: No se pudo abrir el archivo missing.txt''],
             n_open := 1\<rparr>)"
  by (simp add: isRedirection_def isRedirection_loop.simps sys_open_def emit_def open_error_def
      lowest_free_def os_missing_def os_ok_def shell0_def)

section \<open>Properties of the single-stage launcher\<close>

lemma argv_loop_takeWhile:
  "argv_loop args argv = argv @ map (\<lambda>arg. Some (c_str arg)) (args_before_redirection args)"
  by (induction args arbitrary: argv) (auto simp: args_before_redirection_def)

lemma executeCommand_argv_eq:
  "executeCommand_argv args =
     map (\<lambda>arg. Some (c_str arg)) (args_before_redirection args) @ [None]"
  by (simp add: executeCommand_argv_def argv_loop_takeWhile)

lemma c_str_no_NUL: "CHR 0x00 \<notin> set s \<Longrightarrow> c_str s = s"
  unfolding c_str_def by (rule takeWhile_eq_all_conv[THEN iffD2]) auto

lemma exec_calls_append: "exec_calls (xs @ ys) = exec_calls xs @ exec_calls ys"
  by (induction xs rule: exec_calls.induct) auto

lemma exec_calls_exec_or_die: "exec_calls (exec_or_die os argv) = [(hd argv, argv)]"
  by (simp add: exec_or_die_def split: option.splits)

lemma exec_calls_executeCommand_child:
  "exec_calls (executeCommand_child os args inFile outFile) =
     [(hd (executeCommand_argv args), executeCommand_argv args)]"
  by (simp add: executeCommand_child_def exec_calls_append exec_calls_exec_or_die)

lemma launch_children:
  "fork_ok os (n_fork st) \<Longrightarrow>
   children (launch os args inFile outFile st) =
     children st @ [\<lparr>c_pid = 1 + int (length (children st)),
                     c_trace = executeCommand_child os args inFile outFile\<rparr>]"
  by (simp add: launch_def sys_fork_def sys_close_def sys_wait_def emit_def Let_def)

text \<open>
  C6, as amended: when resolution succeeds and the \<^verbatim>\<open>fork\<close> succeeds, the command
  has one new child, and that child calls \<^verbatim>\<open>execvp\<close> once, with the vector made of
  the tokens strictly before the first \<^verbatim>\<open><\<close> or \<^verbatim>\<open>>\<close>, each as a C string,
  followed by the null pointer, and with the first entry of that vector as program
  name. The program name is the first token when the first token is not an
  operator, and the null pointer when it is. Tokens that hold no NUL byte are in the
  vector whole. The line \<^verbatim>\<open>sort < in.txt > out.txt\<close> gives the vector \<^verbatim>\<open>sort\<close> alone.
\<close>

theorem executeCommand_child_argv:
  assumes "fst (isRedirection os args st)" and "fork_ok os (n_fork st)"
  shows "(\<exists>c. children (executeCommand os args st) = children st @ [c] \<and>
              exec_calls (c_trace c) =
                [(hd (executeCommand_argv args), executeCommand_argv args)]) \<and>
         executeCommand_argv args =
           map (\<lambda>arg. Some (c_str arg)) (args_before_redirection args) @ [None] \<and>
         (args \<noteq> [] \<and> hd args \<noteq> ''<'' \<and> hd args \<noteq> ''>'' \<longrightarrow>
            hd (executeCommand_argv args) = Some (c_str (hd args))) \<and>
         (args = [] \<or> hd args = ''<'' \<or> hd args = ''>'' \<longrightarrow>
            executeCommand_argv args = [None] \<and> hd (executeCommand_argv args) = None) \<and>
         ((\<forall>arg \<in> set (args_before_redirection args). CHR 0x00 \<notin> set arg) \<longrightarrow>
            executeCommand_argv args = map Some (args_before_redirection args) @ [None]) \<and>
         executeCommand_argv (parseCommand ''sort < in.txt > out.txt'') = [Some ''sort'', None]"
proof (intro conjI impI)
  obtain inFile outFile st1 where r: "isRedirection os args st = (True, inFile, outFile, st1)"
    using assms(1) by (cases "isRedirection os args st") auto
  have frame: "resolver_frame st st1"
    using isRedirection_frame[of st os args] r by simp
  then have f: "fork_ok os (n_fork st1)" and c: "children st1 = children st"
    using assms(2) by (simp_all add: resolver_frame_iff)
  have "executeCommand os args st = launch os args inFile outFile st1"
    using r by (simp add: executeCommand_def)
  then have "children (executeCommand os args st) =
     children st @ [\<lparr>c_pid = 1 + int (length (children st)),
                     c_trace = executeCommand_child os args inFile outFile\<rparr>]"
    using launch_children[OF f] c by simp
  then show "\<exists>c. children (executeCommand os args st) = children st @ [c] \<and>
              exec_calls (c_trace c) =
                [(hd (executeCommand_argv args), executeCommand_argv args)]"
    by (simp add: exec_calls_executeCommand_child)
  show "executeCommand_argv args =
          map (\<lambda>arg. Some (c_str arg)) (args_before_redirection args) @ [None]"
    by (rule executeCommand_argv_eq)
  show "executeCommand_argv (parseCommand ''sort < in.txt > out.txt'') = [Some ''sort'', None]"
    by (simp add: executeCommand_argv_def c_str_def parseCommand_def read_token_def isspace_def)
next
  assume "args \<noteq> [] \<and> hd args \<noteq> ''<'' \<and> hd args \<noteq> ''>''"
  then show "hd (executeCommand_argv args) = Some (c_str (hd args))"
    by (cases args) (auto simp: executeCommand_argv_eq args_before_redirection_def)
next
  assume a: "args = [] \<or> hd args = ''<'' \<or> hd args = ''>''"
  then have "args_before_redirection args = []"
    by (cases args) (auto simp: args_before_redirection_def)
  then show "executeCommand_argv args = [None]" and "hd (executeCommand_argv args) = None"
    by (simp_all add: executeCommand_argv_eq)
next
  assume "\<forall>arg \<in> set (args_before_redirection args). CHR 0x00 \<notin> set arg"
  then have "map (\<lambda>arg. Some (c_str arg)) (args_before_redirection args) =
             map Some (args_before_redirection args)"
    by (simp add: c_str_no_NUL)
  then show "executeCommand_argv args = map Some (args_before_redirection args) @ [None]"
    by (simp add: executeCommand_argv_eq)
qed

theorem executeCommand_child_argv_witness:
  "fst (isRedirection os_ok [''sort'', ''<'', ''in.txt'', ''>'', ''out.txt''] shell0) \<and>
   fork_ok os_ok (n_fork shell0) \<and>
   CHR 0x00 \<notin> set ''sort'' \<and>
   (\<exists>c. children (executeCommand os_ok [''sort'', ''<'', ''in.txt'', ''>'', ''out.txt''] shell0) =
          children shell0 @ [c] \<and>
        exec_calls (c_trace c) = [(Some ''sort'', [Some ''sort'', None])]) \<and>
   fst (isRedirection os_ok [''>'', ''x''] shell0) \<and>
   hd [''>'', ''x''] = ''>'' \<and>
   (\<exists>c. children (executeCommand os_ok [''>'', ''x''] shell0) = children shell0 @ [c] \<and>
        exec_calls (c_trace c) = [(None, [None])])"
proof -
  have a: "fst (isRedirection os_ok [''sort'', ''<'', ''in.txt'', ''>'', ''out.txt''] shell0)"
    and a': "fst (isRedirection os_ok [''>'', ''x''] shell0)"
    by (simp_all add: isRedirection_def isRedirection_loop.simps sys_open_def
        os_ok_def shell0_def Let_def not_less lowest_free_nonneg)
  have b: "fork_ok os_ok (n_fork shell0)"
    by (simp add: os_ok_def)
  have n: "\<forall>arg \<in> set (args_before_redirection [''sort'', ''<'', ''in.txt'', ''>'', ''out.txt'']).
             CHR 0x00 \<notin> set arg"
    and n': "CHR 0x00 \<notin> set ''sort''"
    by (simp_all add: args_before_redirection_def)
  have v: "map Some (args_before_redirection [''sort'', ''<'', ''in.txt'', ''>'', ''out.txt''])
             @ [None] = [Some ''sort'', None]"
    by (simp add: args_before_redirection_def)
  have h: "hd [''>'', ''x''] = ''>''"
    by simp
  have av: "executeCommand_argv [''sort'', ''<'', ''in.txt'', ''>'', ''out.txt''] =
              [Some ''sort'', None]"
    using executeCommand_child_argv[OF a b] n unfolding v by blast
  from executeCommand_child_argv[OF a b] obtain c where
    "children (executeCommand os_ok [''sort'', ''<'', ''in.txt'', ''>'', ''out.txt''] shell0) =
       children shell0 @ [c]"
    "exec_calls (c_trace c) =
       [(hd (executeCommand_argv [''sort'', ''<'', ''in.txt'', ''>'', ''out.txt'']),
         executeCommand_argv [''sort'', ''<'', ''in.txt'', ''>'', ''out.txt''])]"
    by blast
  then have 1: "\<exists>c. children (executeCommand os_ok [''sort'', ''<'', ''in.txt'', ''>'', ''out.txt''] shell0) =
          children shell0 @ [c] \<and>
        exec_calls (c_trace c) = [(Some ''sort'', [Some ''sort'', None])]"
    unfolding av by auto
  have av': "executeCommand_argv [''>'', ''x''] = [None]"
    using executeCommand_child_argv[OF a' b] h by blast
  from executeCommand_child_argv[OF a' b] obtain c' where
    "children (executeCommand os_ok [''>'', ''x''] shell0) = children shell0 @ [c']"
    "exec_calls (c_trace c') =
       [(hd (executeCommand_argv [''>'', ''x'']), executeCommand_argv [''>'', ''x''])]"
    by blast
  then have 2: "\<exists>c. children (executeCommand os_ok [''>'', ''x''] shell0) = children shell0 @ [c] \<and>
        exec_calls (c_trace c) = [(None, [None])]"
    unfolding av' by auto
  from a b n' 1 a' h 2 show ?thesis
    by blast
qed

text \<open>
  C6 as stated fails in two places. On the line \<^verbatim>\<open>> x\<close> the child path is reached
  and the first token is \<^verbatim>\<open>>\<close>: the vector is the null pointer alone, and the
  program name given to \<^verbatim>\<open>execvp\<close> is the null pointer, not the first token. And
  a token that holds a NUL byte is in the vector only up to that byte.
\<close>

theorem executeCommand_child_argv_null_name:
  "parseCommand ''> x'' = [''>'', ''x''] \<and>
   hasPipe [''>'', ''x''] = False \<and>
   fst (isRedirection os_ok [''>'', ''x''] shell0) \<and>
   fork_ok os_ok (n_fork shell0) \<and>
   children (executeCommand os_ok [''>'', ''x''] shell0) =
     [\<lparr>c_pid = 1,
       c_trace = [Dup2 3 1, Close 3, Execvp None [None], Killed_SIGSEGV]\<rparr>] \<and>
   executeCommand_argv [[CHR ''a'', CHR 0x00, CHR ''b'']] = [Some ''a'', None] \<and>
   [CHR ''a'', CHR 0x00, CHR ''b''] \<noteq> ''a''"
  by (simp add: parseCommand_def read_token_def isspace_def executeCommand_def isRedirection_def
      isRedirection_loop.simps launch_def executeCommand_child_def executeCommand_argv_def
      exec_or_die_def c_str_def STDOUT_FILENO_def sys_open_def sys_fork_def sys_close_def
      sys_wait_def emit_def lowest_free_def os_ok_def shell0_def Let_def)

section \<open>Fresh descriptors\<close>

lemma first_free_fresh:
  "card {x \<in> set used. int n \<le> x} \<le> k \<Longrightarrow> first_free k n used \<notin> set used"
proof (induction k arbitrary: n)
  case 0
  then have "{x \<in> set used. int n \<le> x} = {}"
    by simp
  then show ?case by auto
next
  case (Suc k)
  show ?case
  proof (cases "int n \<in> set used")
    case False
    then show ?thesis by simp
  next
    case True
    have "{x \<in> set used. int (Suc n) \<le> x} = {x \<in> set used. int n \<le> x} - {int n}"
      by auto
    moreover have "int n \<in> {x \<in> set used. int n \<le> x}"
      using True by simp
    ultimately have "card {x \<in> set used. int (Suc n) \<le> x} = card {x \<in> set used. int n \<le> x} - 1"
      by (simp add: card_Diff_singleton)
    with Suc.prems have "card {x \<in> set used. int (Suc n) \<le> x} \<le> k"
      by simp
    from Suc.IH[OF this] True show ?thesis by simp
  qed
qed

lemma lowest_free_fresh: "lowest_free used \<notin> set used"
proof -
  have "card {x \<in> set used. int 0 \<le> x} \<le> card (set used)"
    by (rule card_mono) auto
  also have "\<dots> \<le> length used"
    by (rule card_length)
  finally show ?thesis
    unfolding lowest_free_def by (rule first_free_fresh)
qed

section \<open>Properties of the two-stage launcher\<close>

lemma sys_pipe_ok:
  assumes "pipe_ok os (n_pipe st)"
  defines "r \<equiv> lowest_free (fds st)"
  defines "w \<equiv> lowest_free (fds st @ [r])"
  shows "sys_pipe os st =
           (0, r, w, emit (Pipe r w) (st\<lparr>fds := fds st @ [r, w], n_pipe := Suc (n_pipe st)\<rparr>))"
    and "r \<notin> set (fds st)" and "w \<notin> set (fds st)" and "r \<noteq> w"
proof -
  show "sys_pipe os st =
           (0, r, w, emit (Pipe r w) (st\<lparr>fds := fds st @ [r, w], n_pipe := Suc (n_pipe st)\<rparr>))"
    using assms(1) by (simp add: sys_pipe_def r_def w_def Let_def)
  show "r \<notin> set (fds st)"
    unfolding r_def by (rule lowest_free_fresh)
  have "w \<notin> set (fds st @ [r])"
    unfolding w_def by (rule lowest_free_fresh)
  then show "w \<notin> set (fds st)" and "r \<noteq> w"
    by auto
qed

lemma sys_fork_ok:
  "fork_ok os (n_fork st) \<Longrightarrow>
   sys_fork os branch st =
     (1 + int (length (children st)),
      emit (Fork (1 + int (length (children st))))
        (st\<lparr>unreaped := unreaped st @ [1 + int (length (children st))],
            children := children st @
              [\<lparr>c_pid = 1 + int (length (children st)), c_trace = branch\<rparr>],
            n_fork := Suc (n_fork st)\<rparr>))"
  by (simp add: sys_fork_def Let_def)

lemma sys_fork_failed:
  "\<not> fork_ok os (n_fork st) \<Longrightarrow>
   sys_fork os branch st = (- 1, emit (Fork (- 1)) (st\<lparr>n_fork := Suc (n_fork st)\<rparr>))"
  by (simp add: sys_fork_def)

text \<open>
  C5: when \<^verbatim>\<open>pipe\<close> and both calls of \<^verbatim>\<open>fork\<close> succeed, the parent does, in this
  order and nothing else: create the pipe, create the first child, create the second
  child, close the read end, close the write end, wait for the first child, wait for
  the second child. At the first wait it holds exactly the descriptors it held
  before the command, neither pipe end among them, and after the launcher neither
  child is left to be waited for.
\<close>

theorem executePipedCommands_closes_then_waits:
  assumes "pipe_ok os (n_pipe st)" and "fork_ok os (n_fork st)"
    and "fork_ok os (Suc (n_fork st))"
  shows "\<exists>r w pid1 pid2 st3.
           log (executePipedCommands os args st) =
             log st @ [Pipe r w, Fork pid1, Fork pid2, Close r, Close w,
                       Waitpid pid1, Waitpid pid2] \<and>
           0 < pid1 \<and> 0 < pid2 \<and> pid1 \<noteq> pid2 \<and> r \<noteq> w \<and>
           map c_pid (children (executePipedCommands os args st)) =
             map c_pid (children st) @ [pid1, pid2] \<and>
           executePipedCommands os args st = sys_waitpid pid2 (sys_waitpid pid1 st3) \<and>
           fds st3 = fds st \<and> r \<notin> set (fds st3) \<and> w \<notin> set (fds st3) \<and>
           fds (executePipedCommands os args st) = fds st \<and>
           pid1 \<notin> set (unreaped (executePipedCommands os args st)) \<and>
           pid2 \<notin> set (unreaped (executePipedCommands os args st))"
proof -
  obtain cmd1 cmd2 where sp: "split_commands args = (cmd1, cmd2)"
    by (cases "split_commands args")
  define r where "r = lowest_free (fds st)"
  define w where "w = lowest_free (fds st @ [r])"
  define st1 where "st1 = emit (Pipe r w) (st\<lparr>fds := fds st @ [r, w], n_pipe := Suc (n_pipe st)\<rparr>)"
  define pid1 where "pid1 = 1 + int (length (children st))"
  define pid2 where "pid2 = 2 + int (length (children st))"
  define st2 where "st2 = snd (sys_fork os (piped_child1 os cmd1 r w) st1)"
  define st3 where "st3 = snd (sys_fork os (piped_child2 os cmd2 r w) st2)"
  define st4 where "st4 = sys_close w (sys_close r st3)"
  have p: "sys_pipe os st = (0, r, w, st1)" and fresh: "r \<notin> set (fds st)" "w \<notin> set (fds st)" "r \<noteq> w"
    using sys_pipe_ok[OF assms(1)] by (simp_all add: r_def w_def st1_def)
  have s1: "fds st1 = fds st @ [r, w]" "children st1 = children st"
    "log st1 = log st @ [Pipe r w]" "n_fork st1 = n_fork st"
    by (simp_all add: st1_def emit_def)
  have f1: "fork_ok os (n_fork st1)"
    using assms(2) by (simp add: s1)
  have k1: "sys_fork os (piped_child1 os cmd1 r w) st1 = (pid1, st2)"
    unfolding st2_def pid1_def s1(2)[symmetric] by (simp add: sys_fork_ok[OF f1])
  have s2: "fds st2 = fds st @ [r, w]" "map c_pid (children st2) = map c_pid (children st) @ [pid1]"
    "log st2 = log st @ [Pipe r w, Fork pid1]" "n_fork st2 = Suc (n_fork st)"
    "length (children st2) = Suc (length (children st))"
    unfolding st2_def pid1_def s1(2)[symmetric]
    by (simp_all add: sys_fork_ok[OF f1] emit_def s1)
  have f2: "fork_ok os (n_fork st2)"
    using assms(3) by (simp add: s2)
  have pid2: "pid2 = 1 + int (length (children st2))"
    by (simp add: pid2_def s2)
  have k2: "sys_fork os (piped_child2 os cmd2 r w) st2 = (pid2, st3)"
    unfolding st3_def pid2 by (simp add: sys_fork_ok[OF f2])
  have s3: "fds st3 = fds st @ [r, w]"
    "map c_pid (children st3) = map c_pid (children st) @ [pid1, pid2]"
    "log st3 = log st @ [Pipe r w, Fork pid1, Fork pid2]"
    unfolding st3_def pid2 by (simp_all add: sys_fork_ok[OF f2] emit_def s2)
  have run: "executePipedCommands os args st = sys_waitpid pid2 (sys_waitpid pid1 st4)"
    by (simp add: executePipedCommands_def sp p k1 k2 pid1_def pid2_def st4_def)
  have l: "log st4 = log st @ [Pipe r w, Fork pid1, Fork pid2, Close r, Close w]"
    by (simp add: st4_def sys_close_def emit_def s3)
  have d: "fds st4 = fds st"
    using fresh by (simp add: st4_def sys_close_def emit_def s3)
  have c: "map c_pid (children st4) = map c_pid (children st) @ [pid1, pid2]"
    by (simp add: st4_def sys_close_def emit_def s3)
  have "log (executePipedCommands os args st) =
             log st @ [Pipe r w, Fork pid1, Fork pid2, Close r, Close w,
                       Waitpid pid1, Waitpid pid2]"
    by (simp add: run l sys_waitpid_def emit_def)
  moreover have "0 < pid1" "0 < pid2" "pid1 \<noteq> pid2"
    by (simp_all add: pid1_def pid2_def)
  moreover have "map c_pid (children (executePipedCommands os args st)) =
             map c_pid (children st) @ [pid1, pid2]"
    by (simp add: run c sys_waitpid_def emit_def)
  moreover have "fds (executePipedCommands os args st) = fds st"
    by (simp add: run d sys_waitpid_def emit_def)
  moreover have "pid1 \<notin> set (unreaped (executePipedCommands os args st))"
    "pid2 \<notin> set (unreaped (executePipedCommands os args st))"
    by (simp_all add: run sys_waitpid_def emit_def)
  ultimately show ?thesis
    using run d fresh by (metis (no_types))
qed

theorem executePipedCommands_closes_then_waits_witness:
  "pipe_ok os_ok (n_pipe shell0) \<and> fork_ok os_ok (n_fork shell0) \<and>
   fork_ok os_ok (Suc (n_fork shell0)) \<and>
   fds (executePipedCommands os_ok [''ls'', ''|'', ''wc'', ''-l''] shell0) = fds shell0 \<and>
   log (executePipedCommands os_ok [''ls'', ''|'', ''wc'', ''-l''] shell0) =
     [Pipe 3 4, Fork 1, Fork 2, Close 3, Close 4, Waitpid 1, Waitpid 2]"
proof -
  have a: "pipe_ok os_ok (n_pipe shell0)" and b: "fork_ok os_ok (n_fork shell0)"
    and c: "fork_ok os_ok (Suc (n_fork shell0))"
    by (simp_all add: os_ok_def)
  from executePipedCommands_closes_then_waits[OF a b c, of "[''ls'', ''|'', ''wc'', ''-l'']"]
  have d: "fds (executePipedCommands os_ok [''ls'', ''|'', ''wc'', ''-l''] shell0) = fds shell0"
    by blast
  have l: "log (executePipedCommands os_ok [''ls'', ''|'', ''wc'', ''-l''] shell0) =
     [Pipe 3 4, Fork 1, Fork 2, Close 3, Close 4, Waitpid 1, Waitpid 2]"
    by (simp add: executePipedCommands_def split_commands_def sys_pipe_def sys_fork_def
        sys_close_def sys_waitpid_def emit_def lowest_free_def os_ok_def shell0_def Let_def)
  from a b c d l show ?thesis
    by blast
qed

section \<open>Failure of process creation\<close>

lemma launch_fork_failed:
  "\<not> fork_ok os (n_fork st) \<Longrightarrow>
   launch os args inFile outFile st =
     emit (Stderr ''Error: Fallo en fork.'') (emit (Fork (- 1)) (st\<lparr>n_fork := Suc (n_fork st)\<rparr>))"
  by (simp add: launch_def sys_fork_failed)

text \<open>
  C4, as amended: when \<^verbatim>\<open>fork\<close> fails, the failure is reported and the launcher
  returns with the report as the last thing done. When the failing \<^verbatim>\<open>fork\<close> is the
  single-stage launcher's, or the first of the two-stage launcher, the command has
  created no child and performs no wait. When it is the second of the two-stage
  launcher, the first child has been created before, and it is the only child of
  the command.
\<close>

theorem fork_failure_reported:
  "(fst (isRedirection os args st) \<and> \<not> fork_ok os (n_fork st) \<longrightarrow>
      (\<exists>evs. log (executeCommand os args st) =
                log st @ evs @ [Fork (- 1), Stderr ''Error: Fallo en fork.''] \<and>
              (\<forall>e \<in> set evs. \<not> is_process_event e)) \<and>
      children (executeCommand os args st) = children st \<and>
      unreaped (executeCommand os args st) = unreaped st) \<and>
   (pipe_ok os (n_pipe st) \<and> \<not> fork_ok os (n_fork st) \<longrightarrow>
      (\<exists>r w. log (executePipedCommands os args st) =
                log st @ [Pipe r w, Fork (- 1), Stderr ''Error: Fallo en fork.'']) \<and>
      children (executePipedCommands os args st) = children st \<and>
      unreaped (executePipedCommands os args st) = unreaped st) \<and>
   (pipe_ok os (n_pipe st) \<and> fork_ok os (n_fork st) \<and> \<not> fork_ok os (Suc (n_fork st)) \<longrightarrow>
      (\<exists>r w pid1 evs.
         0 < pid1 \<and>
         children (executePipedCommands os args st) =
           children st @
             [\<lparr>c_pid = pid1, c_trace = piped_child1 os (fst (split_commands args)) r w\<rparr>] \<and>
         Fork pid1 \<in> set evs \<and>
         log (executePipedCommands os args st) =
           log st @ evs @ [Fork (- 1), Stderr ''Error: Fallo en fork.'']))"
proof (intro conjI impI)
  assume a: "fst (isRedirection os args st) \<and> \<not> fork_ok os (n_fork st)"
  obtain inFile outFile st1 where r: "isRedirection os args st = (True, inFile, outFile, st1)"
    using a by (cases "isRedirection os args st") auto
  have frame: "resolver_frame st st1"
    using isRedirection_frame[of st os args] r by simp
  then obtain evs where evs: "log st1 = log st @ evs" "\<forall>e \<in> set evs. \<not> is_process_event e"
    unfolding resolver_frame_iff by blast
  from frame a have nf: "\<not> fork_ok os (n_fork st1)"
    by (simp add: resolver_frame_iff)
  have run: "executeCommand os args st =
     emit (Stderr ''Error: Fallo en fork.'') (emit (Fork (- 1)) (st1\<lparr>n_fork := Suc (n_fork st1)\<rparr>))"
    using r by (simp add: executeCommand_def launch_fork_failed[OF nf])
  have "log (executeCommand os args st) =
          log st @ evs @ [Fork (- 1), Stderr ''Error: Fallo en fork.'']"
    by (simp add: run emit_def evs(1))
  with evs(2) show "\<exists>evs. log (executeCommand os args st) =
                log st @ evs @ [Fork (- 1), Stderr ''Error: Fallo en fork.''] \<and>
              (\<forall>e \<in> set evs. \<not> is_process_event e)"
    by blast
  show "children (executeCommand os args st) = children st"
    using frame by (simp add: run emit_def resolver_frame_iff)
  show "unreaped (executeCommand os args st) = unreaped st"
    using frame by (simp add: run emit_def resolver_frame_iff)
next
  assume a: "pipe_ok os (n_pipe st) \<and> \<not> fork_ok os (n_fork st)"
  obtain cmd1 cmd2 where sp: "split_commands args = (cmd1, cmd2)"
    by (cases "split_commands args")
  define r where "r = lowest_free (fds st)"
  define w where "w = lowest_free (fds st @ [r])"
  define st1 where "st1 = emit (Pipe r w) (st\<lparr>fds := fds st @ [r, w], n_pipe := Suc (n_pipe st)\<rparr>)"
  have p: "sys_pipe os st = (0, r, w, st1)"
    using sys_pipe_ok(1)[of os st] a by (simp add: r_def w_def st1_def)
  have s1: "children st1 = children st" "unreaped st1 = unreaped st"
    "log st1 = log st @ [Pipe r w]" "n_fork st1 = n_fork st"
    by (simp_all add: st1_def emit_def)
  have nf: "\<not> fork_ok os (n_fork st1)"
    using a by (simp add: s1)
  have run: "executePipedCommands os args st =
     emit (Stderr ''Error: Fallo en fork.'') (emit (Fork (- 1)) (st1\<lparr>n_fork := Suc (n_fork st1)\<rparr>))"
    by (simp add: executePipedCommands_def sp p sys_fork_failed[OF nf])
  have "log (executePipedCommands os args st) =
          log st @ [Pipe r w, Fork (- 1), Stderr ''Error: Fallo en fork.'']"
    by (simp add: run emit_def s1)
  then show "\<exists>r w. log (executePipedCommands os args st) =
                log st @ [Pipe r w, Fork (- 1), Stderr ''Error: Fallo en fork.'']"
    by blast
  show "children (executePipedCommands os args st) = children st"
    by (simp add: run emit_def s1)
  show "unreaped (executePipedCommands os args st) = unreaped st"
    by (simp add: run emit_def s1)
next
  assume a: "pipe_ok os (n_pipe st) \<and> fork_ok os (n_fork st) \<and> \<not> fork_ok os (Suc (n_fork st))"
  obtain cmd1 cmd2 where sp: "split_commands args = (cmd1, cmd2)"
    by (cases "split_commands args")
  define r where "r = lowest_free (fds st)"
  define w where "w = lowest_free (fds st @ [r])"
  define st1 where "st1 = emit (Pipe r w) (st\<lparr>fds := fds st @ [r, w], n_pipe := Suc (n_pipe st)\<rparr>)"
  define pid1 where "pid1 = 1 + int (length (children st1))"
  define st2 where "st2 = snd (sys_fork os (piped_child1 os cmd1 r w) st1)"
  have p: "sys_pipe os st = (0, r, w, st1)"
    using sys_pipe_ok(1)[of os st] a by (simp add: r_def w_def st1_def)
  have s1: "log st1 = log st @ [Pipe r w]" "n_fork st1 = n_fork st" "children st1 = children st"
    by (simp_all add: st1_def emit_def)
  have f1: "fork_ok os (n_fork st1)"
    using a by (simp add: s1)
  have k1: "sys_fork os (piped_child1 os cmd1 r w) st1 = (pid1, st2)"
    unfolding st2_def pid1_def by (simp add: sys_fork_ok[OF f1])
  have s2: "log st2 = log st @ [Pipe r w, Fork pid1]" "n_fork st2 = Suc (n_fork st)"
    "children st2 = children st @ [\<lparr>c_pid = pid1, c_trace = piped_child1 os cmd1 r w\<rparr>]"
    unfolding st2_def pid1_def by (simp_all add: sys_fork_ok[OF f1] emit_def s1)
  have nf: "\<not> fork_ok os (n_fork st2)"
    using a by (simp add: s2)
  have pos: "0 < pid1"
    by (simp add: pid1_def)
  then have pos': "\<not> pid1 < 0"
    by simp
  have run: "executePipedCommands os args st =
     emit (Stderr ''Error: Fallo en fork.'') (emit (Fork (- 1)) (st2\<lparr>n_fork := Suc (n_fork st2)\<rparr>))"
    using pos' by (simp add: executePipedCommands_def sp p k1 sys_fork_failed[OF nf])
  have l: "log (executePipedCommands os args st) =
          log st @ [Pipe r w, Fork pid1] @ [Fork (- 1), Stderr ''Error: Fallo en fork.'']"
    by (simp add: run emit_def s2)
  have c: "children (executePipedCommands os args st) =
          children st @
            [\<lparr>c_pid = pid1, c_trace = piped_child1 os (fst (split_commands args)) r w\<rparr>]"
    by (simp add: run emit_def s2 sp)
  have "Fork pid1 \<in> set [Pipe r w, Fork pid1]"
    by simp
  with pos c l show "\<exists>r w pid1 evs.
         0 < pid1 \<and>
         children (executePipedCommands os args st) =
           children st @
             [\<lparr>c_pid = pid1, c_trace = piped_child1 os (fst (split_commands args)) r w\<rparr>] \<and>
         Fork pid1 \<in> set evs \<and>
         log (executePipedCommands os args st) =
           log st @ evs @ [Fork (- 1), Stderr ''Error: Fallo en fork.'']"
    by blast
qed

theorem fork_failure_reported_witness:
  "fst (isRedirection os_second_fork_fails [''pwd''] (shell0\<lparr>n_fork := 1\<rparr>)) \<and>
   \<not> fork_ok os_second_fork_fails (n_fork (shell0\<lparr>n_fork := 1\<rparr>)) \<and>
   children (executeCommand os_second_fork_fails [''pwd''] (shell0\<lparr>n_fork := 1\<rparr>)) = [] \<and>
   pipe_ok os_second_fork_fails (n_pipe (shell0\<lparr>n_fork := 1\<rparr>)) \<and>
   children (executePipedCommands os_second_fork_fails [''ls'', ''|'', ''wc''] (shell0\<lparr>n_fork := 1\<rparr>))
     = [] \<and>
   pipe_ok os_second_fork_fails (n_pipe shell0) \<and> fork_ok os_second_fork_fails (n_fork shell0) \<and>
   \<not> fork_ok os_second_fork_fails (Suc (n_fork shell0)) \<and>
   (\<exists>r w pid1 evs.
      0 < pid1 \<and>
      children (executePipedCommands os_second_fork_fails [''ls'', ''|'', ''wc''] shell0) =
        children shell0 @
          [\<lparr>c_pid = pid1,
            c_trace = piped_child1 os_second_fork_fails
                        (fst (split_commands [''ls'', ''|'', ''wc''])) r w\<rparr>] \<and>
      Fork pid1 \<in> set evs \<and>
      log (executePipedCommands os_second_fork_fails [''ls'', ''|'', ''wc''] shell0) =
        log shell0 @ evs @ [Fork (- 1), Stderr ''Error: Fallo en fork.''])"
proof -
  let ?st = "shell0\<lparr>n_fork := 1\<rparr>"
  have a: "fst (isRedirection os_second_fork_fails [''pwd''] ?st)"
    by (simp add: isRedirection_def isRedirection_loop.simps)
  have b: "\<not> fork_ok os_second_fork_fails (n_fork ?st)"
    by (simp add: os_second_fork_fails_def)
  have c: "pipe_ok os_second_fork_fails (n_pipe ?st)" "pipe_ok os_second_fork_fails (n_pipe shell0)"
    by (simp_all add: os_second_fork_fails_def os_ok_def)
  have d: "fork_ok os_second_fork_fails (n_fork shell0)"
    "\<not> fork_ok os_second_fork_fails (Suc (n_fork shell0))"
    by (simp_all add: os_second_fork_fails_def shell0_def)
  have e: "children ?st = []"
    by (simp add: shell0_def)
  from fork_failure_reported[of os_second_fork_fails "[''pwd'']" ?st] a b
  have 1: "children (executeCommand os_second_fork_fails [''pwd''] ?st) = children ?st"
    by blast
  from fork_failure_reported[of os_second_fork_fails "[''ls'', ''|'', ''wc'']" ?st] b c
  have 2: "children (executePipedCommands os_second_fork_fails [''ls'', ''|'', ''wc''] ?st) =
           children ?st"
    by blast
  from fork_failure_reported[of os_second_fork_fails "[''ls'', ''|'', ''wc'']" shell0]
    c d
  have 3: "\<exists>r w pid1 evs.
      0 < pid1 \<and>
      children (executePipedCommands os_second_fork_fails [''ls'', ''|'', ''wc''] shell0) =
        children shell0 @
          [\<lparr>c_pid = pid1,
            c_trace = piped_child1 os_second_fork_fails
                        (fst (split_commands [''ls'', ''|'', ''wc''])) r w\<rparr>] \<and>
      Fork pid1 \<in> set evs \<and>
      log (executePipedCommands os_second_fork_fails [''ls'', ''|'', ''wc''] shell0) =
        log shell0 @ evs @ [Fork (- 1), Stderr ''Error: Fallo en fork.'']"
    by blast
  from a b c d 1[unfolded e] 2[unfolded e] 3 show ?thesis
    by blast
qed

text \<open>
  C4 as stated fails where the second \<^verbatim>\<open>fork\<close> of a pipeline fails: the failure is
  reported and no wait is performed, but a child exists, the first one, and it is
  left unwaited.
\<close>

theorem second_fork_failure_leaves_child:
  "pipe_ok os_second_fork_fails (n_pipe shell0) \<and>
   fork_ok os_second_fork_fails (n_fork shell0) \<and>
   \<not> fork_ok os_second_fork_fails (Suc (n_fork shell0)) \<and>
   log (executePipedCommands os_second_fork_fails [''ls'', ''|'', ''wc''] shell0) =
     [Pipe 3 4, Fork 1, Fork (- 1), Stderr ''Error: Fallo en fork.''] \<and>
   map c_pid (children (executePipedCommands os_second_fork_fails [''ls'', ''|'', ''wc''] shell0))
     = [1] \<and>
   unreaped (executePipedCommands os_second_fork_fails [''ls'', ''|'', ''wc''] shell0) = [1]"
  by (simp add: executePipedCommands_def split_commands_def sys_pipe_def sys_fork_def
      emit_def lowest_free_def os_second_fork_fails_def os_ok_def shell0_def Let_def)

section \<open>Properties of the dispatcher and of the loop\<close>

lemma hasPipe_iff: "hasPipe args \<longleftrightarrow> ''|'' \<in> set args"
  by (induction args) auto

text \<open>
  C9: for a line whose token list is not empty, one turn of the loop is exactly one
  of four things, chosen in this order: leave the loop when the first token is
  \<^verbatim>\<open>exit\<close>; the directory change when it is \<^verbatim>\<open>cd\<close>; the two-stage launcher when
  some token is \<^verbatim>\<open>|\<close>; the single-stage path otherwise, which is the resolver and,
  when it succeeds, the launcher on what it resolved.
\<close>

theorem main_turn_routes:
  assumes "input \<noteq> []" and "parseCommand input = args" and "args \<noteq> []"
  shows "(hd args = ''exit'' \<longrightarrow>
            main_turn os input st = Inr (Break, emit (Stdout ''mishell:$ '') st)) \<and>
         (hd args = ''cd'' \<longrightarrow>
            main_turn os input st =
              Inr (Continue, changeDirectory os args (emit (Stdout ''mishell:$ '') st))) \<and>
         (hd args \<noteq> ''exit'' \<and> hd args \<noteq> ''cd'' \<and> ''|'' \<in> set args \<longrightarrow>
            main_turn os input st =
              Inr (Continue, executePipedCommands os args (emit (Stdout ''mishell:$ '') st))) \<and>
         (hd args \<noteq> ''exit'' \<and> hd args \<noteq> ''cd'' \<and> ''|'' \<notin> set args \<longrightarrow>
            main_turn os input st =
              Inr (Continue, executeCommand os args (emit (Stdout ''mishell:$ '') st))) \<and>
         executeCommand os args st =
           (if fst (isRedirection os args st)
            then launch os args (fst (snd (isRedirection os args st)))
                   (fst (snd (snd (isRedirection os args st))))
                   (snd (snd (snd (isRedirection os args st))))
            else snd (snd (snd (isRedirection os args st))))"
proof -
  have hd: "args ! 0 = hd args"
    using assms(3) by (simp add: hd_conv_nth)
  have "executeCommand os args st =
           (if fst (isRedirection os args st)
            then launch os args (fst (snd (isRedirection os args st)))
                   (fst (snd (snd (isRedirection os args st))))
                   (snd (snd (snd (isRedirection os args st))))
            else snd (snd (snd (isRedirection os args st))))"
    by (cases "isRedirection os args st") (simp add: executeCommand_def)
  then show ?thesis
    using assms by (simp add: main_turn_def Let_def hd hasPipe_iff)
qed

theorem main_turn_routes_witness:
  "''ls | wc -l'' \<noteq> [] \<and> parseCommand ''ls | wc -l'' = [''ls'', ''|'', ''wc'', ''-l''] \<and>
   main_turn os_ok ''ls | wc -l'' shell0 =
     Inr (Continue, executePipedCommands os_ok [''ls'', ''|'', ''wc'', ''-l'']
                      (emit (Stdout ''mishell:$ '') shell0)) \<and>
   ''exit now'' \<noteq> [] \<and> parseCommand ''exit now'' = [''exit'', ''now''] \<and>
   main_turn os_ok ''exit now'' shell0 = Inr (Break, emit (Stdout ''mishell:$ '') shell0) \<and>
   ''cd /tmp'' \<noteq> [] \<and> parseCommand ''cd /tmp'' = [''cd'', ''/tmp''] \<and>
   main_turn os_ok ''cd /tmp'' shell0 =
     Inr (Continue, changeDirectory os_ok [''cd'', ''/tmp''] (emit (Stdout ''mishell:$ '') shell0)) \<and>
   ''pwd'' \<noteq> [] \<and> parseCommand ''pwd'' = [''pwd''] \<and>
   main_turn os_ok ''pwd'' shell0 =
     Inr (Continue, executeCommand os_ok [''pwd''] (emit (Stdout ''mishell:$ '') shell0))"
proof -
  have a: "''ls | wc -l'' \<noteq> []" and b: "[''ls'', ''|'', ''wc'', ''-l''] \<noteq> []"
    and c: "''exit now'' \<noteq> []" and d: "[''exit'', ''now''] \<noteq> []"
    and e: "''cd /tmp'' \<noteq> []" and f: "[''cd'', ''/tmp''] \<noteq> []"
    and g: "''pwd'' \<noteq> []" and h: "[''pwd''] \<noteq> []"
    by simp_all
  have p: "parseCommand ''ls | wc -l'' = [''ls'', ''|'', ''wc'', ''-l'']"
    and q: "parseCommand ''exit now'' = [''exit'', ''now'']"
    and r: "parseCommand ''cd /tmp'' = [''cd'', ''/tmp'']"
    and s: "parseCommand ''pwd'' = [''pwd'']"
    by (simp_all add: parseCommand_def read_token_def isspace_def)
  from main_turn_routes[OF a p b, of os_ok shell0]
  have 1: "main_turn os_ok ''ls | wc -l'' shell0 =
     Inr (Continue, executePipedCommands os_ok [''ls'', ''|'', ''wc'', ''-l'']
                      (emit (Stdout ''mishell:$ '') shell0))"
    by simp
  from main_turn_routes[OF c q d, of os_ok shell0]
  have 2: "main_turn os_ok ''exit now'' shell0 = Inr (Break, emit (Stdout ''mishell:$ '') shell0)"
    by simp
  from main_turn_routes[OF e r f, of os_ok shell0]
  have 3: "main_turn os_ok ''cd /tmp'' shell0 =
     Inr (Continue, changeDirectory os_ok [''cd'', ''/tmp''] (emit (Stdout ''mishell:$ '') shell0))"
    by simp
  from main_turn_routes[OF g s h, of os_ok shell0]
  have 4: "main_turn os_ok ''pwd'' shell0 =
     Inr (Continue, executeCommand os_ok [''pwd''] (emit (Stdout ''mishell:$ '') shell0))"
    by simp
  from a p 1 c q 2 e r 3 g s 4 show ?thesis
    by blast
qed

text \<open>
  C10 fails on the code: a line of spaces is not empty, so the loop's filter lets it
  through; its token list is empty, and \<^verbatim>\<open>args[0]\<close> reads out of bounds.
\<close>

theorem main_turn_whitespace_line:
  "''   '' \<noteq> [] \<and> parseCommand ''   '' = [] \<and> main_turn os ''   '' st = Inl OutOfBounds"
  by (simp add: main_turn_def parseCommand_def read_token_def isspace_def)

text \<open>
  C2 fails on the code: with \<^verbatim>\<open>cmd > a > b\<close> the descriptor of \<^verbatim>\<open>a\<close> is overwritten
  by that of \<^verbatim>\<open>b\<close> and never closed, and when the second \<^verbatim>\<open>fork\<close> of a pipeline
  fails the launcher returns with both pipe ends open. After the command the parent
  holds more descriptors than the three it started with, and it still does at the
  prompts that follow.
\<close>

theorem main_loop_leaks_descriptors:
  "fds shell0 = [0, 1, 2] \<and>
   map_option fds (shell_of (main os_ok 1 (''cmd > a > b\<newline>'') shell0)) =
     Some [0, 1, 2, 3] \<and>
   map_option log (shell_of (main os_ok 1 (''cmd > a > b\<newline>'') shell0)) =
     Some [Stdout ''mishell:$ '', Open ''a'' O_WRONLY_CREAT_TRUNC 3,
           Open ''b'' O_WRONLY_CREAT_TRUNC 4, Fork 1, Close 4, Wait 1] \<and>
   map_option fds (shell_of (main os_ok 3 (''cmd > a > b\<newline>'') shell0)) =
     Some [0, 1, 2, 3] \<and>
   map_option fds (shell_of (main os_second_fork_fails 1 (''ls | wc\<newline>'') shell0)) =
     Some [0, 1, 2, 3, 4] \<and>
   map_option log (shell_of (main os_second_fork_fails 1 (''ls | wc\<newline>'') shell0)) =
     Some [Stdout ''mishell:$ '', Pipe 3 4, Fork 1, Fork (- 1), Stderr ''Error: Fallo en fork.'']"
proof -
  have p: "parseCommand ''cmd > a > b'' = [''cmd'', ''>'', ''a'', ''>'', ''b'']"
    and q: "parseCommand ''ls | wc'' = [''ls'', ''|'', ''wc'']"
    by (simp_all add: parseCommand_def read_token_def isspace_def)
  have e: "executeCommand os_ok [''cmd'', ''>'', ''a'', ''>'', ''b'']
             (emit (Stdout ''mishell:$ '') shell0) =
           shell0\<lparr>fds := [0, 1, 2, 3], children := [\<lparr>c_pid = 1, c_trace =
                    [Dup2 4 1, Close 4, Execvp (Some ''cmd'') [Some ''cmd'', None]]\<rparr>],
                  log := [Stdout ''mishell:$ '', Open ''a'' O_WRONLY_CREAT_TRUNC 3,
                          Open ''b'' O_WRONLY_CREAT_TRUNC 4, Fork 1, Close 4, Wait 1],
                  n_open := 2, n_fork := 1, n_wait := 1\<rparr>"
    by (simp add: executeCommand_def isRedirection_def isRedirection_loop.simps launch_def
        executeCommand_child_def executeCommand_argv_def exec_or_die_def c_str_def
        STDOUT_FILENO_def sys_open_def sys_fork_def sys_close_def sys_wait_def emit_def
        lowest_free_def os_ok_def shell0_def Let_def)
  have f: "executePipedCommands os_second_fork_fails [''ls'', ''|'', ''wc'']
             (emit (Stdout ''mishell:$ '') shell0) =
           shell0\<lparr>fds := [0, 1, 2, 3, 4], unreaped := [1],
                  children := [\<lparr>c_pid = 1, c_trace =
                    [Dup2 4 1, Close 3, Close 4, Execvp (Some ''ls'') [Some ''ls'', None]]\<rparr>],
                  log := [Stdout ''mishell:$ '', Pipe 3 4, Fork 1, Fork (- 1),
                          Stderr ''Error: Fallo en fork.''],
                  n_pipe := 1, n_fork := 2\<rparr>"
    by (simp add: executePipedCommands_def split_commands_def piped_child1_def exec_or_die_def
        c_str_def STDOUT_FILENO_def sys_pipe_def sys_fork_def emit_def lowest_free_def
        os_second_fork_fails_def os_ok_def shell0_def Let_def)
  have t1: "main_turn os_ok ''cmd > a > b'' shell0 =
              Inr (Continue, executeCommand os_ok [''cmd'', ''>'', ''a'', ''>'', ''b'']
                               (emit (Stdout ''mishell:$ '') shell0))"
    by (simp add: main_turn_def p Let_def)
  have t2: "main_turn os_second_fork_fails ''ls | wc'' shell0 =
              Inr (Continue, executePipedCommands os_second_fork_fails [''ls'', ''|'', ''wc'']
                               (emit (Stdout ''mishell:$ '') shell0))"
    by (simp add: main_turn_def q Let_def)
  have idle: "main_turn os [] st = Inr (Continue, emit (Stdout ''mishell:$ '') st)" for os st
    by (simp add: main_turn_def Let_def)
  have g: "getline \<lparr>pending = ''cmd > a > b\<newline>'', good = True\<rparr> [] =
             (\<lparr>pending = [], good = True\<rparr>, ''cmd > a > b'')"
    "getline \<lparr>pending = ''ls | wc\<newline>'', good = True\<rparr> [] =
             (\<lparr>pending = [], good = True\<rparr>, ''ls | wc'')"
    "getline \<lparr>pending = [], good = True\<rparr> ''cmd > a > b'' = (\<lparr>pending = [], good = False\<rparr>, [])"
    "getline \<lparr>pending = [], good = False\<rparr> [] = (\<lparr>pending = [], good = False\<rparr>, [])"
    by (simp_all add: getline_def)
  have m1: "main os_ok 1 (''cmd > a > b\<newline>'') shell0 =
              Running (executeCommand os_ok [''cmd'', ''>'', ''a'', ''>'', ''b'']
                         (emit (Stdout ''mishell:$ '') shell0))"
    unfolding main_def by (simp add: g t1)
  have m3: "main os_ok 3 (''cmd > a > b\<newline>'') shell0 =
              Running (emit (Stdout ''mishell:$ '') (emit (Stdout ''mishell:$ '')
                (executeCommand os_ok [''cmd'', ''>'', ''a'', ''>'', ''b'']
                         (emit (Stdout ''mishell:$ '') shell0))))"
    unfolding main_def by (simp add: eval_nat_numeral g t1 idle)
  have m2: "main os_second_fork_fails 1 (''ls | wc\<newline>'') shell0 =
              Running (executePipedCommands os_second_fork_fails [''ls'', ''|'', ''wc'']
                               (emit (Stdout ''mishell:$ '') shell0))"
    unfolding main_def by (simp add: g t2)
  show ?thesis
    unfolding m1 m2 m3 e f by (simp add: emit_def shell0_def)
qed

end
